theory Spec2Isabelle
  imports Complex_Main "HOL-Library.Multiset" "HOL-Library.AList"
begin

section \<open>Data model of the models manager (SimulatorCore/ModelsManager.cpp)\<close>

text \<open>
  Paths, keys and names are strings. A library handle (\<open>DYSSOL_LIBRARY_INSTANCE\<close>) and an
  instance pointer (\<open>CBaseUnit*\<close>, \<open>CExternalSolver*\<close>) are natural numbers; a nullable
  handle or pointer is an \<open>option\<close>, with \<open>None\<close> for the null value.
\<close>

type_synonym lib_handle = nat
type_synonym instance_ptr = nat

text \<open>
  An exception thrown by plugin code is either a \<open>std::logic_error\<close> (or a class derived
  from it) or anything else; the handlers of the source tell exactly these two apart.
\<close>

datatype exn = LogicError string | OtherException string

text \<open>
  What ends a call of the manager abnormally: an exception that no handler caught, a read
  through a null instance pointer, or an index outside the table of factory names.
\<close>

datatype error = Uncaught exn | NullDereference | IndexOutOfRange

text \<open>
  The library and instance life-cycle actions of the manager, in program order:
  \<open>LoadDyssolLibrary\<close> that succeeded, \<open>CloseDyssolLibrary\<close>, a factory call that returned
  a non-null instance, \<open>delete\<close> of an instance, and the insertion into and the erasure from
  the maps \<open>m_loadedUnits\<close> / \<open>m_loadedSolvers\<close>.
\<close>

datatype event =
    LibraryLoaded string lib_handle
  | LibraryClosed lib_handle
  | InstanceCreated instance_ptr
  | InstanceDeleted instance_ptr
  | MappingInserted instance_ptr lib_handle
  | MappingErased instance_ptr

record SModelDir =
  path :: string
  key :: string
  active :: bool
  checked :: bool

record SModelDescriptor =
  uniqueID :: string
  name :: string
  author :: string
  version :: nat
  fileLocation :: string
  dirKey :: string
  position :: nat

record SUnitDescriptor = SModelDescriptor +
  isDynamic :: bool

record SSolverDescriptor = SModelDescriptor +
  solverType :: nat

text \<open>
  The value-initialised descriptors written \<open>{}\<close> in the source: empty strings, and zero
  for the other members (their initialisers are in the missing ModelsManager.h).
\<close>

definition empty_unit_descriptor :: SUnitDescriptor where
  "empty_unit_descriptor =
     \<lparr>uniqueID = [], name = [], author = [], version = 0, fileLocation = [],
      dirKey = [], position = 0, isDynamic = False\<rparr>"

definition empty_solver_descriptor :: SSolverDescriptor where
  "empty_solver_descriptor =
     \<lparr>uniqueID = [], name = [], author = [], version = 0, fileLocation = [],
      dirKey = [], position = 0, solverType = 0\<rparr>"

text \<open>
  The host's view of a constructed plugin instance: the public field \<open>m_nCompilerVer\<close> and
  the accessors the manager calls, each of which returns a value or throws.
\<close>

record CBaseUnit =
  unit_m_nCompilerVer :: nat
  unit_GetUniqueID :: "exn + string"
  unit_GetUnitName :: "exn + string"
  unit_GetAuthorName :: "exn + string"
  unit_GetUnitVersion :: "exn + nat"
  unit_IsDynamicUnit :: "exn + bool"

record CExternalSolver =
  solver_m_nCompilerVer :: nat
  solver_GetUniqueID :: "exn + string"
  solver_GetName :: "exn + string"
  solver_GetAuthorName :: "exn + string"
  solver_GetVersion :: "exn + nat"
  solver_GetType :: "exn + nat"

text \<open>
  Everything the manager reaches outside ModelsManager.cpp: the platform loader
  (\<open>dlopen\<close>/\<open>LoadLibrary\<close>, \<open>dlsym\<close>/\<open>GetProcAddress\<close>), the plugin code behind a resolved
  factory (calling it throws or returns a possibly null pointer) and behind an instance
  pointer, the \<open>FileSystem\<close> and \<open>StringFunctions\<close> helpers, the constants of the missing
  headers, the \<open>explicit operator bool\<close> of the two descriptor types, and \<open>std::sort\<close> on the
  two descriptor vectors.
\<close>

record env =
  dl_open :: "string \<Rightarrow> lib_handle option"
  dl_sym :: "lib_handle \<Rightarrow> string \<Rightarrow> (exn + instance_ptr option) option"
  unit_at :: "instance_ptr \<Rightarrow> CBaseUnit"
  solver_at :: "instance_ptr \<Rightarrow> CExternalSolver"
  FilesList :: "string \<Rightarrow> string list"
  AbsolutePath :: "string \<Rightarrow> string"
  ExecutableDirPath :: string
  UnifyPath :: "string \<Rightarrow> string"
  GenerateUniqueString :: "string \<Rightarrow> string list \<Rightarrow> string"
  COMPILER_VERSION :: nat
  DYSSOL_CREATE_MODEL_FUN_NAME :: string
  CREATE_SOLVER_FUN_NAMES :: "string list"
  SOLVERS_TYPES_NUMBER :: nat
  unit_bool :: "SUnitDescriptor \<Rightarrow> bool"
  solver_bool :: "SSolverDescriptor \<Rightarrow> bool"
  sort_units :: "SUnitDescriptor list \<Rightarrow> SUnitDescriptor list"
  sort_solvers :: "SSolverDescriptor list \<Rightarrow> SSolverDescriptor list"

text \<open>
  The three platform wrappers at the end of ModelsManager.cpp. Loading and resolving return
  what the platform returns; closing is recorded with the manager's actions below.
\<close>

abbreviation LoadDyssolLibrary :: "env \<Rightarrow> string \<Rightarrow> lib_handle option" where
  "LoadDyssolLibrary e libPath \<equiv> dl_open e libPath"

abbreviation LoadDyssolLibraryConstructor ::
  "env \<Rightarrow> lib_handle \<Rightarrow> string \<Rightarrow> (exn + instance_ptr option) option" where
  "LoadDyssolLibraryConstructor e lib funName \<equiv> dl_sym e lib funName"

text \<open>
  The manager: its five data members, and \<open>effects\<close>, the life-cycle actions performed so
  far.
\<close>

record CModelsManager =
  m_dirsList :: "SModelDir list"
  m_availableUnits :: "SUnitDescriptor list"
  m_availableSolvers :: "SSolverDescriptor list"
  m_loadedUnits :: "instance_ptr \<rightharpoonup> lib_handle"
  m_loadedSolvers :: "instance_ptr \<rightharpoonup> lib_handle"
  effects :: "event list"

section \<open>Probing a library for a descriptor\<close>

text \<open>
  The probing functions do not touch the manager's members; they take the life-cycle
  actions performed so far and return them extended, or the error that ended the call.
\<close>

text \<open>
  The second \<open>try\<close> block of \<open>TryGetUnitDescriptor\<close>: the accessors are called in the
  source's order, and \<open>catch (...)\<close> replaces the descriptor by \<open>{}\<close> whatever is thrown.
\<close>

definition unit_descriptor_of :: "env \<Rightarrow> string \<Rightarrow> CBaseUnit \<Rightarrow> SUnitDescriptor" where
  "unit_descriptor_of e pathToUnit u =
     (case unit_GetUniqueID u of Inl _ \<Rightarrow> empty_unit_descriptor | Inr uid \<Rightarrow>
      case unit_GetUnitName u of Inl _ \<Rightarrow> empty_unit_descriptor | Inr nm \<Rightarrow>
      case unit_GetAuthorName u of Inl _ \<Rightarrow> empty_unit_descriptor | Inr au \<Rightarrow>
      case unit_GetUnitVersion u of Inl _ \<Rightarrow> empty_unit_descriptor | Inr ver \<Rightarrow>
      case unit_IsDynamicUnit u of Inl _ \<Rightarrow> empty_unit_descriptor | Inr dyn \<Rightarrow>
        empty_unit_descriptor
          \<lparr>uniqueID := uid, name := nm, author := au, version := ver,
           isDynamic := dyn, fileLocation := UnifyPath e pathToUnit\<rparr>)"

definition TryGetUnitDescriptor ::
  "env \<Rightarrow> string \<Rightarrow> lib_handle \<Rightarrow> event list \<Rightarrow> error + (SUnitDescriptor \<times> event list)" where
  "TryGetUnitDescriptor e pathToUnit library tr =
     (case LoadDyssolLibraryConstructor e library (DYSSOL_CREATE_MODEL_FUN_NAME e) of
        None \<Rightarrow> Inr (empty_unit_descriptor, tr)
      | Some createUnitFunc \<Rightarrow>
         (case createUnitFunc of
            Inl (LogicError msg) \<Rightarrow> Inr (empty_unit_descriptor, tr)
          | Inl (OtherException msg) \<Rightarrow> Inl (Uncaught (OtherException msg))
          | Inr None \<Rightarrow> Inl NullDereference
          | Inr (Some pUnit) \<Rightarrow>
             (if unit_m_nCompilerVer (unit_at e pUnit) \<noteq> COMPILER_VERSION e
              then Inr (empty_unit_descriptor, tr @ [InstanceCreated pUnit, InstanceDeleted pUnit])
              else Inr (unit_descriptor_of e pathToUnit (unit_at e pUnit),
                        tr @ [InstanceCreated pUnit, InstanceDeleted pUnit]))))"

text \<open>
  The \<open>try\<close> block inside the loop of \<open>TryGetSolverDescriptor\<close>: \<open>Some\<close> the filled
  descriptor when no accessor throws (\<open>bFound = true\<close>), \<open>None\<close> when \<open>catch (...)\<close> ran.
\<close>

definition solver_descriptor_of ::
  "env \<Rightarrow> string \<Rightarrow> CExternalSolver \<Rightarrow> SSolverDescriptor option" where
  "solver_descriptor_of e pathToSolver s =
     (case solver_GetUniqueID s of Inl _ \<Rightarrow> None | Inr uid \<Rightarrow>
      case solver_GetName s of Inl _ \<Rightarrow> None | Inr nm \<Rightarrow>
      case solver_GetAuthorName s of Inl _ \<Rightarrow> None | Inr au \<Rightarrow>
      case solver_GetVersion s of Inl _ \<Rightarrow> None | Inr ver \<Rightarrow>
      case solver_GetType s of Inl _ \<Rightarrow> None | Inr ty \<Rightarrow>
        Some (empty_solver_descriptor
          \<lparr>uniqueID := uid, name := nm, author := au, version := ver,
           solverType := ty, fileLocation := UnifyPath e pathToSolver\<rparr>))"

text \<open>
  The loop \<open>for (i = 1; i <= SOLVERS_TYPES_NUMBER && !bFound; ++i)\<close>, over the solver
  types still to try. The loop state is \<open>solverDescriptor\<close>, \<open>pSolver\<close> and the actions;
  \<open>bFound\<close> is the early exit. \<open>pSolver\<close> is overwritten by every factory call that
  returns, and the instance it pointed to before is not deleted.
\<close>

fun solver_types_loop ::
  "env \<Rightarrow> string \<Rightarrow> lib_handle \<Rightarrow> nat list \<Rightarrow> SSolverDescriptor \<Rightarrow> instance_ptr option \<Rightarrow>
   event list \<Rightarrow> error + (SSolverDescriptor \<times> instance_ptr option \<times> event list)" where
  "solver_types_loop e pathToSolver library [] d pSolver tr = Inr (d, pSolver, tr)"
| "solver_types_loop e pathToSolver library (i # rest) d pSolver tr =
     (if length (CREATE_SOLVER_FUN_NAMES e) \<le> i then Inl IndexOutOfRange
      else case LoadDyssolLibraryConstructor e library (CREATE_SOLVER_FUN_NAMES e ! i) of
        None \<Rightarrow> solver_types_loop e pathToSolver library rest d pSolver tr
      | Some createSolverFunc \<Rightarrow>
         (case createSolverFunc of
            Inl (LogicError msg) \<Rightarrow> solver_types_loop e pathToSolver library rest d pSolver tr
          | Inl (OtherException msg) \<Rightarrow> Inl (Uncaught (OtherException msg))
          | Inr None \<Rightarrow> Inl NullDereference
          | Inr (Some p) \<Rightarrow>
             (if solver_m_nCompilerVer (solver_at e p) \<noteq> COMPILER_VERSION e
              then solver_types_loop e pathToSolver library rest d (Some p)
                     (tr @ [InstanceCreated p])
              else case solver_descriptor_of e pathToSolver (solver_at e p) of
                  None \<Rightarrow> solver_types_loop e pathToSolver library rest
                            empty_solver_descriptor (Some p) (tr @ [InstanceCreated p])
                | Some d' \<Rightarrow> Inr (d', Some p, tr @ [InstanceCreated p]))))"

definition TryGetSolverDescriptor ::
  "env \<Rightarrow> string \<Rightarrow> lib_handle \<Rightarrow> event list \<Rightarrow> error + (SSolverDescriptor \<times> event list)" where
  "TryGetSolverDescriptor e pathToSolver library tr =
     (case solver_types_loop e pathToSolver library [1 ..< Suc (SOLVERS_TYPES_NUMBER e)]
             empty_solver_descriptor None tr of
        Inl err \<Rightarrow> Inl err
      | Inr (d, None, tr') \<Rightarrow> Inr (d, tr')
      | Inr (d, Some p, tr') \<Rightarrow> Inr (d, tr' @ [InstanceDeleted p]))"

section \<open>Scanning a directory\<close>

text \<open>
  The loop of \<open>GetAllModelsInDir\<close> over the library files of the directory, with the two
  result vectors as accumulators. A file that does not load is skipped; a loaded library
  is closed after probing, unless an exception left the function before.
\<close>

fun models_in_files ::
  "env \<Rightarrow> string list \<Rightarrow> SUnitDescriptor list \<Rightarrow> SSolverDescriptor list \<Rightarrow> event list \<Rightarrow>
   error + ((SUnitDescriptor list \<times> SSolverDescriptor list) \<times> event list)" where
  "models_in_files e [] resUnits resSolvers tr = Inr ((resUnits, resSolvers), tr)"
| "models_in_files e (f # fs) resUnits resSolvers tr =
     (case LoadDyssolLibrary e f of
        None \<Rightarrow> models_in_files e fs resUnits resSolvers tr
      | Some lib \<Rightarrow>
         (case TryGetUnitDescriptor e f lib (tr @ [LibraryLoaded f lib]) of
            Inl err \<Rightarrow> Inl err
          | Inr (unit, tr1) \<Rightarrow>
             (if unit_bool e unit
              then models_in_files e fs (resUnits @ [unit]) resSolvers (tr1 @ [LibraryClosed lib])
              else case TryGetSolverDescriptor e f lib tr1 of
                  Inl err \<Rightarrow> Inl err
                | Inr (solver, tr2) \<Rightarrow>
                   (if solver_bool e solver
                    then models_in_files e fs resUnits (resSolvers @ [solver])
                           (tr2 @ [LibraryClosed lib])
                    else models_in_files e fs resUnits resSolvers
                           (tr2 @ [LibraryClosed lib])))))"

definition GetAllModelsInDir ::
  "env \<Rightarrow> string \<Rightarrow> event list \<Rightarrow>
   error + ((SUnitDescriptor list \<times> SSolverDescriptor list) \<times> event list)" where
  "GetAllModelsInDir e dir tr = models_in_files e (FilesList e dir) [] [] tr"

definition GetModelsList ::
  "env \<Rightarrow> string \<Rightarrow> event list \<Rightarrow>
   error + ((SUnitDescriptor list \<times> SSolverDescriptor list) \<times> event list)" where
  "GetModelsList e dir tr =
     (case GetAllModelsInDir e (AbsolutePath e dir) tr of
        Inl err \<Rightarrow> Inl err
      | Inr (models, tr1) \<Rightarrow>
         (if fst models = [] \<and> snd models = []
          then GetAllModelsInDir e (AbsolutePath e (ExecutableDirPath e @ ''/'' @ dir)) tr1
          else Inr (models, tr1)))"

section \<open>Reconciliation of the descriptor caches\<close>

text \<open>The lambda \<open>IsToDelete\<close> of \<open>UpdateAvailableModels\<close>, over the directory list.\<close>

fun IsToDelete :: "SModelDir list \<Rightarrow> 'a SModelDescriptor_scheme \<Rightarrow> bool" where
  "IsToDelete [] model = True"
| "IsToDelete (dir # dirs) model =
     (if active dir \<and> key dir = dirKey model then False else IsToDelete dirs model)"

text \<open>
  Modelled from the spec: \<open>VectorDelete\<close> is declared in DyssolUtilities.h, which is not among
  the sources. The spec has this step drop every cached descriptor whose owning directory
  is not active any more: every element for which the predicate holds is erased, the others
  stay in their order.
\<close>

definition VectorDelete :: "'a list \<Rightarrow> ('a \<Rightarrow> bool) \<Rightarrow> 'a list" where
  "VectorDelete xs toDelete = filter (\<lambda>x. \<not> toDelete x) xs"

text \<open>
  The second loop of \<open>UpdateAvailableModels\<close>: every directory that is active and not
  checked is scanned, the found descriptors get its key and are appended to the caches, and
  the directory is marked checked. The result is the directory list with the new flags,
  the two caches and the actions.
\<close>

fun add_models_from_dirs ::
  "env \<Rightarrow> SModelDir list \<Rightarrow> SUnitDescriptor list \<Rightarrow> SSolverDescriptor list \<Rightarrow> event list \<Rightarrow>
   error + (SModelDir list \<times> SUnitDescriptor list \<times> SSolverDescriptor list \<times> event list)" where
  "add_models_from_dirs e [] units solvers tr = Inr ([], units, solvers, tr)"
| "add_models_from_dirs e (dir # dirs) units solvers tr =
     (if active dir \<and> \<not> checked dir
      then case GetModelsList e (path dir) tr of
          Inl err \<Rightarrow> Inl err
        | Inr (models, tr1) \<Rightarrow>
           (case add_models_from_dirs e dirs
                   (units @ map (\<lambda>unit. unit\<lparr>dirKey := key dir\<rparr>) (fst models))
                   (solvers @ map (\<lambda>unit. unit\<lparr>dirKey := key dir\<rparr>) (snd models)) tr1 of
              Inl err \<Rightarrow> Inl err
            | Inr (dirs', r) \<Rightarrow> Inr (dir\<lparr>checked := True\<rparr> # dirs', r))
      else case add_models_from_dirs e dirs units solvers tr of
          Inl err \<Rightarrow> Inl err
        | Inr (dirs', r) \<Rightarrow> Inr (dir # dirs', r))"

text \<open>
  The third loop: for \<open>i = 0, 1, ...\<close> every descriptor whose \<open>dirKey\<close> is the key of
  directory \<open>i\<close> gets position \<open>i\<close>.
\<close>

definition set_positions ::
  "SModelDir list \<Rightarrow> 'a SModelDescriptor_scheme list \<Rightarrow> 'a SModelDescriptor_scheme list" where
  "set_positions dirs models =
     fold (\<lambda>i ms. map (\<lambda>m. if dirKey m = key (dirs ! i) then m\<lparr>position := i\<rparr> else m) ms)
       [0 ..< length dirs] models"

definition UpdateAvailableModels :: "env \<Rightarrow> CModelsManager \<Rightarrow> error + CModelsManager" where
  "UpdateAvailableModels e st =
     (case add_models_from_dirs e (m_dirsList st)
             (VectorDelete (m_availableUnits st) (IsToDelete (m_dirsList st)))
             (VectorDelete (m_availableSolvers st) (IsToDelete (m_dirsList st)))
             (effects st) of
        Inl err \<Rightarrow> Inl err
      | Inr (dirs, units, solvers, tr) \<Rightarrow>
          Inr (st\<lparr>m_dirsList := dirs,
                  m_availableUnits := sort_units e (set_positions dirs units),
                  m_availableSolvers := sort_solvers e (set_positions dirs solvers),
                  effects := tr\<rparr>))"

section \<open>Directory list\<close>

definition DirsNumber :: "CModelsManager \<Rightarrow> nat" where
  "DirsNumber st = length (m_dirsList st)"

definition AllDirsKeys :: "CModelsManager \<Rightarrow> string list" where
  "AllDirsKeys st = map key (m_dirsList st)"

definition AddDir :: "env \<Rightarrow> string \<Rightarrow> bool \<Rightarrow> CModelsManager \<Rightarrow> error + (bool \<times> CModelsManager)" where
  "AddDir e p a st =
     (case find (\<lambda>entry. path entry = p) (m_dirsList st) of
        Some entry \<Rightarrow> Inr (False, st)
      | None \<Rightarrow>
         (case UpdateAvailableModels e
                 (st\<lparr>m_dirsList := m_dirsList st @
                    [\<lparr>path = p, key = GenerateUniqueString e [] (AllDirsKeys st),
                      active = a, checked = False\<rparr>]\<rparr>) of
            Inl err \<Rightarrow> Inl err
          | Inr st' \<Rightarrow> Inr (True, st')))"

definition RemoveDir :: "env \<Rightarrow> nat \<Rightarrow> CModelsManager \<Rightarrow> error + (bool \<times> CModelsManager)" where
  "RemoveDir e i st =
     (if length (m_dirsList st) \<le> i then Inr (False, st)
      else case UpdateAvailableModels e
                  (st\<lparr>m_dirsList := take i (m_dirsList st) @ drop (Suc i) (m_dirsList st)\<rparr>) of
          Inl err \<Rightarrow> Inl err
        | Inr st' \<Rightarrow> Inr (True, st'))"

definition UpDir :: "env \<Rightarrow> nat \<Rightarrow> CModelsManager \<Rightarrow> error + (bool \<times> CModelsManager)" where
  "UpDir e i st =
     (if length (m_dirsList st) \<le> i \<or> i = 0 then Inr (False, st)
      else case UpdateAvailableModels e
                  (st\<lparr>m_dirsList := (m_dirsList st)
                        [i := m_dirsList st ! (i - 1), i - 1 := m_dirsList st ! i]\<rparr>) of
          Inl err \<Rightarrow> Inl err
        | Inr st' \<Rightarrow> Inr (True, st'))"

definition DownDir :: "env \<Rightarrow> nat \<Rightarrow> CModelsManager \<Rightarrow> error + (bool \<times> CModelsManager)" where
  "DownDir e i st =
     (if length (m_dirsList st) \<le> i \<or> Suc i = length (m_dirsList st) then Inr (False, st)
      else case UpdateAvailableModels e
                  (st\<lparr>m_dirsList := (m_dirsList st)
                        [i := m_dirsList st ! (i + 1), i + 1 := m_dirsList st ! i]\<rparr>) of
          Inl err \<Rightarrow> Inl err
        | Inr st' \<Rightarrow> Inr (True, st'))"

definition GetDirPath :: "CModelsManager \<Rightarrow> nat \<Rightarrow> string" where
  "GetDirPath st i = (if i < length (m_dirsList st) then path (m_dirsList st ! i) else [])"

definition GetDirActivity :: "CModelsManager \<Rightarrow> nat \<Rightarrow> bool" where
  "GetDirActivity st i = (if i < length (m_dirsList st) then active (m_dirsList st ! i) else False)"

text \<open>
  The two assignments of \<open>SetDirActivity\<close> (\<open>checked\<close> from the previous \<open>active\<close>, then
  \<open>active\<close>), before the reconciliation it ends with.
\<close>

definition SetDirActivity_flags :: "nat \<Rightarrow> bool \<Rightarrow> CModelsManager \<Rightarrow> CModelsManager" where
  "SetDirActivity_flags i a st =
     st\<lparr>m_dirsList := (m_dirsList st)
          [i := (m_dirsList st ! i)
                  \<lparr>checked := active (m_dirsList st ! i) \<or> \<not> a, active := a\<rparr>]\<rparr>"

definition SetDirActivity :: "env \<Rightarrow> nat \<Rightarrow> bool \<Rightarrow> CModelsManager \<Rightarrow> error + CModelsManager" where
  "SetDirActivity e i a st =
     (if length (m_dirsList st) \<le> i then Inr st
      else UpdateAvailableModels e (SetDirActivity_flags i a st))"

definition Clear :: "CModelsManager \<Rightarrow> CModelsManager" where
  "Clear st = st\<lparr>m_dirsList := [], m_availableUnits := [], m_availableSolvers := []\<rparr>"

definition GetAvailableUnits :: "CModelsManager \<Rightarrow> SUnitDescriptor list" where
  "GetAvailableUnits st = m_availableUnits st"

definition GetAvailableSolvers :: "CModelsManager \<Rightarrow> SSolverDescriptor list" where
  "GetAvailableSolvers st = m_availableSolvers st"

section \<open>Instantiating and freeing models\<close>

definition CloseDyssolLibrary :: "lib_handle \<Rightarrow> CModelsManager \<Rightarrow> CModelsManager" where
  "CloseDyssolLibrary lib st = st\<lparr>effects := effects st @ [LibraryClosed lib]\<rparr>"

text \<open>
  The loop of \<open>InstantiateUnit\<close> over the available units still to visit. A factory that
  throws is not guarded here, so its exception leaves the call.
\<close>

fun instantiate_unit_loop ::
  "env \<Rightarrow> string \<Rightarrow> SUnitDescriptor list \<Rightarrow> CModelsManager \<Rightarrow>
   error + (instance_ptr option \<times> CModelsManager)" where
  "instantiate_unit_loop e k [] st = Inr (None, st)"
| "instantiate_unit_loop e k (u # us) st =
     (if uniqueID u = k
      then case LoadDyssolLibrary e (fileLocation u) of
          None \<Rightarrow> Inr (None, st)
        | Some hLibrary \<Rightarrow>
           (let st1 = st\<lparr>effects := effects st @ [LibraryLoaded (fileLocation u) hLibrary]\<rparr>
            in case LoadDyssolLibraryConstructor e hLibrary (DYSSOL_CREATE_MODEL_FUN_NAME e) of
                None \<Rightarrow> instantiate_unit_loop e k us (CloseDyssolLibrary hLibrary st1)
              | Some createUnitFunc \<Rightarrow>
                 (case createUnitFunc of
                    Inl ex \<Rightarrow> Inl (Uncaught ex)
                  | Inr None \<Rightarrow> instantiate_unit_loop e k us (CloseDyssolLibrary hLibrary st1)
                  | Inr (Some pUnit) \<Rightarrow>
                      Inr (Some pUnit,
                           st1\<lparr>m_loadedUnits := (m_loadedUnits st1)(pUnit \<mapsto> hLibrary),
                               effects := effects st1 @
                                 [InstanceCreated pUnit, MappingInserted pUnit hLibrary]\<rparr>)))
      else instantiate_unit_loop e k us st)"

definition InstantiateUnit ::
  "env \<Rightarrow> string \<Rightarrow> CModelsManager \<Rightarrow> error + (instance_ptr option \<times> CModelsManager)" where
  "InstantiateUnit e k st = instantiate_unit_loop e k (m_availableUnits st) st"

fun instantiate_solver_loop ::
  "env \<Rightarrow> string \<Rightarrow> SSolverDescriptor list \<Rightarrow> CModelsManager \<Rightarrow>
   error + (instance_ptr option \<times> CModelsManager)" where
  "instantiate_solver_loop e k [] st = Inr (None, st)"
| "instantiate_solver_loop e k (s # ss) st =
     (if uniqueID s = k
      then case LoadDyssolLibrary e (fileLocation s) of
          None \<Rightarrow> Inr (None, st)
        | Some hLibrary \<Rightarrow>
           (let st1 = st\<lparr>effects := effects st @ [LibraryLoaded (fileLocation s) hLibrary]\<rparr>
            in if length (CREATE_SOLVER_FUN_NAMES e) \<le> solverType s then Inl IndexOutOfRange
               else case LoadDyssolLibraryConstructor e hLibrary (CREATE_SOLVER_FUN_NAMES e ! solverType s) of
                None \<Rightarrow> instantiate_solver_loop e k ss (CloseDyssolLibrary hLibrary st1)
              | Some createSolverFunc \<Rightarrow>
                 (case createSolverFunc of
                    Inl ex \<Rightarrow> Inl (Uncaught ex)
                  | Inr None \<Rightarrow> instantiate_solver_loop e k ss (CloseDyssolLibrary hLibrary st1)
                  | Inr (Some pSolver) \<Rightarrow>
                      Inr (Some pSolver,
                           st1\<lparr>m_loadedSolvers := (m_loadedSolvers st1)(pSolver \<mapsto> hLibrary),
                               effects := effects st1 @
                                 [InstanceCreated pSolver, MappingInserted pSolver hLibrary]\<rparr>)))
      else instantiate_solver_loop e k ss st)"

definition InstantiateSolver ::
  "env \<Rightarrow> string \<Rightarrow> CModelsManager \<Rightarrow> error + (instance_ptr option \<times> CModelsManager)" where
  "InstantiateSolver e k st = instantiate_solver_loop e k (m_availableSolvers st) st"

text \<open>
  \<open>FreeUnit\<close> and \<open>FreeSolver\<close>: the two early returns, then the erasure from the map, the
  \<open>delete\<close> and the closing of the library, each appended to the actions as it happens.
\<close>

definition FreeUnit :: "instance_ptr option \<Rightarrow> CModelsManager \<Rightarrow> CModelsManager" where
  "FreeUnit unit st =
     (case unit of
        None \<Rightarrow> st
      | Some p \<Rightarrow>
         (case m_loadedUnits st p of
            None \<Rightarrow> st
          | Some hLibrary \<Rightarrow>
             (let st1 = st\<lparr>m_loadedUnits := (m_loadedUnits st)(p := None),
                           effects := effects st @ [MappingErased p]\<rparr>;
                  st2 = st1\<lparr>effects := effects st1 @ [InstanceDeleted p]\<rparr>
              in CloseDyssolLibrary hLibrary st2)))"

definition FreeSolver :: "instance_ptr option \<Rightarrow> CModelsManager \<Rightarrow> CModelsManager" where
  "FreeSolver solver st =
     (case solver of
        None \<Rightarrow> st
      | Some p \<Rightarrow>
         (case m_loadedSolvers st p of
            None \<Rightarrow> st
          | Some hLibrary \<Rightarrow>
             (let st1 = st\<lparr>m_loadedSolvers := (m_loadedSolvers st)(p := None),
                           effects := effects st @ [MappingErased p]\<rparr>;
                  st2 = st1\<lparr>effects := effects st1 @ [InstanceDeleted p]\<rparr>
              in CloseDyssolLibrary hLibrary st2)))"

section \<open>Ordering of descriptors and the contract of the sort\<close>

text \<open>
  Modelled from the spec: \<open>SModelDescriptor::operator<\<close> is declared in ModelsManager.h,
  which is not among the sources; the spec has both descriptor lists sorted by \<open>position\<close>.
\<close>

definition descriptor_less ::
  "'a SModelDescriptor_scheme \<Rightarrow> 'a SModelDescriptor_scheme \<Rightarrow> bool" where
  "descriptor_less a b = (position a < position b)"

text \<open>
  What \<open>std::sort\<close> promises for a comparison that is a strict weak ordering: the result is
  a rearrangement of the input in which no element is less than one before it. The order
  of equivalent elements is not part of the promise (that is \<open>std::stable_sort\<close>).
\<close>

definition std_sort_contract ::
  "('a SModelDescriptor_scheme list \<Rightarrow> 'a SModelDescriptor_scheme list) \<Rightarrow> bool" where
  "std_sort_contract srt =
     (\<forall>xs. mset (srt xs) = mset xs \<and> sorted_wrt (\<lambda>a b. \<not> descriptor_less b a) (srt xs))"

section \<open>Consistency of the caches with the directory list\<close>

text \<open>
  Every descriptor of the list is owned by an active directory, and its position is the
  index of that directory.
\<close>

definition positions_ok ::
  "SModelDir list \<Rightarrow> 'a SModelDescriptor_scheme list \<Rightarrow> bool" where
  "positions_ok dirs models =
     (\<forall>m \<in> set models. \<exists>i < length dirs.
        active (dirs ! i) \<and> key (dirs ! i) = dirKey m \<and> position m = i)"

text \<open>
  The state every reconciliation leaves behind: directory keys are pairwise different,
  every active directory has been scanned, and both caches are consistent with the list.
\<close>

definition reconciled :: "CModelsManager \<Rightarrow> bool" where
  "reconciled st =
     (distinct (map key (m_dirsList st)) \<and>
      (\<forall>d \<in> set (m_dirsList st). active d \<longrightarrow> checked d) \<and>
      positions_ok (m_dirsList st) (m_availableUnits st) \<and>
      positions_ok (m_dirsList st) (m_availableSolvers st))"

text \<open>One round of the position loop on one descriptor.\<close>

definition position_step :: "SModelDir list \<Rightarrow> nat \<Rightarrow> 'a SModelDescriptor_scheme \<Rightarrow> 'a SModelDescriptor_scheme" where
  "position_step dirs i m = (if dirKey m = key (dirs ! i) then m\<lparr>position := i\<rparr> else m)"

text \<open>What the scanning loop does to the flags of one directory.\<close>

definition mark_checked :: "SModelDir \<Rightarrow> SModelDir" where
  "mark_checked d = (if active d \<and> \<not> checked d then d\<lparr>checked := True\<rparr> else d)"

section \<open>A concrete installation\<close>

text \<open>
  Two conforming implementations of the sort: insertion sort by position, which keeps
  equivalent elements in their order, and the same after reversing the input, which does
  not.
\<close>

definition stable_sort ::
  "'a SModelDescriptor_scheme list \<Rightarrow> 'a SModelDescriptor_scheme list" where
  "stable_sort xs = sort_key position xs"

definition reversing_sort ::
  "'a SModelDescriptor_scheme list \<Rightarrow> 'a SModelDescriptor_scheme list" where
  "reversing_sort xs = sort_key position (rev xs)"

definition example_unit :: "string \<Rightarrow> nat \<Rightarrow> CBaseUnit" where
  "example_unit uid ver =
     \<lparr>unit_m_nCompilerVer = ver, unit_GetUniqueID = Inr uid, unit_GetUnitName = Inr ''Unit'',
      unit_GetAuthorName = Inr ''Author'', unit_GetUnitVersion = Inr 1,
      unit_IsDynamicUnit = Inr False\<rparr>"

definition example_solver :: "string \<Rightarrow> nat \<Rightarrow> CExternalSolver" where
  "example_solver uid ver =
     \<lparr>solver_m_nCompilerVer = ver, solver_GetUniqueID = Inr uid, solver_GetName = Inr ''Solver'',
      solver_GetAuthorName = Inr ''Author'', solver_GetVersion = Inr 1,
      solver_GetType = Inr 1\<rparr>"

text \<open>
  Directory \<open>/A\<close> holds two unit libraries, \<open>/B\<close> one, \<open>/C\<close> a library whose unit factory
  throws an exception that is not a \<open>std::logic_error\<close> (and, outside the listing, a
  solver library that does the same), \<open>/D\<close> a unit and a solver library built with another
  compiler version, \<open>/S\<close> one solver library, \<open>/E\<close> a second library of the unit U1. The
  file \<open>/A/gone.so\<close> does not load. The host's compiler version is 7.
\<close>

definition example_env :: env where
  "example_env =
     \<lparr>dl_open = (\<lambda>f. if f = ''/A/a1.so'' then Some 1 else if f = ''/A/a2.so'' then Some 2
                     else if f = ''/B/b1.so'' then Some 3 else if f = ''/C/bad.so'' then Some 4
                     else if f = ''/D/old.so'' then Some 5 else if f = ''/S/s1.so'' then Some 6
                     else if f = ''/C/bads.so'' then Some 7
                     else if f = ''/D/olds.so'' then Some 8
                     else if f = ''/E/u1.so'' then Some 9 else None),
      dl_sym = (\<lambda>h n. if n = ''CreateUnit''
                     then (if h = 1 then Some (Inr (Some 11)) else if h = 2 then Some (Inr (Some 12))
                           else if h = 3 then Some (Inr (Some 13))
                           else if h = 4 then Some (Inl (OtherException ''runtime_error''))
                           else if h = 5 then Some (Inr (Some 15))
                           else if h = 9 then Some (Inr (Some 19)) else None)
                     else if n = ''CreateSolver1''
                     then (if h = 6 then Some (Inr (Some 21))
                           else if h = 7 then Some (Inl (OtherException ''runtime_error''))
                           else if h = 8 then Some (Inr (Some 25)) else None)
                     else None),
      unit_at = (\<lambda>p. if p = 11 \<or> p = 19 then example_unit ''U1'' 7
                     else if p = 12 then example_unit ''U2'' 7
                     else if p = 13 then example_unit ''U3'' 7 else example_unit ''U5'' 6),
      solver_at = (\<lambda>p. if p = 21 then example_solver ''S1'' 7 else example_solver ''S5'' 6),
      FilesList = (\<lambda>d. if d = ''/A'' then [''/A/a1.so'', ''/A/a2.so'']
                     else if d = ''/B'' then [''/B/b1.so'']
                     else if d = ''/C'' then [''/C/bad.so'']
                     else if d = ''/D'' then [''/D/old.so'', ''/D/olds.so'']
                     else if d = ''/S'' then [''/S/s1.so'']
                     else if d = ''/E'' then [''/E/u1.so''] else []),
      AbsolutePath = (\<lambda>p. p),
      ExecutableDirPath = ''/opt'',
      UnifyPath = (\<lambda>p. p),
      GenerateUniqueString = (\<lambda>init ks. replicate (Suc (length ks)) (CHR ''k'')),
      COMPILER_VERSION = 7,
      DYSSOL_CREATE_MODEL_FUN_NAME = ''CreateUnit'',
      CREATE_SOLVER_FUN_NAMES = [''CreateSolver0'', ''CreateSolver1'', ''CreateSolver2''],
      SOLVERS_TYPES_NUMBER = 2,
      unit_bool = (\<lambda>d. uniqueID d \<noteq> []),
      solver_bool = (\<lambda>d. uniqueID d \<noteq> []),
      sort_units = stable_sort,
      sort_solvers = stable_sort\<rparr>"

definition empty_manager :: CModelsManager where
  "empty_manager =
     \<lparr>m_dirsList = [], m_availableUnits = [], m_availableSolvers = [],
      m_loadedUnits = Map.empty, m_loadedSolvers = Map.empty, effects = []\<rparr>"

definition unit_descr :: "string \<Rightarrow> string \<Rightarrow> string \<Rightarrow> nat \<Rightarrow> SUnitDescriptor" where
  "unit_descr uid file k pos =
     \<lparr>uniqueID = uid, name = ''Unit'', author = ''Author'', version = 1, fileLocation = file,
      dirKey = k, position = pos, isDynamic = False\<rparr>"

text \<open>The manager after \<open>/A\<close> and \<open>/B\<close> have been added as active directories.\<close>

definition manager_AB :: CModelsManager where
  "manager_AB =
     \<lparr>m_dirsList = [\<lparr>path = ''/A'', key = ''k'', active = True, checked = True\<rparr>,
                    \<lparr>path = ''/B'', key = ''kk'', active = True, checked = True\<rparr>],
      m_availableUnits = [unit_descr ''U1'' ''/A/a1.so'' ''k'' 0,
                          unit_descr ''U2'' ''/A/a2.so'' ''k'' 0,
                          unit_descr ''U3'' ''/B/b1.so'' ''kk'' 1],
      m_availableSolvers = [],
      m_loadedUnits = Map.empty, m_loadedSolvers = Map.empty, effects = []\<rparr>"

text \<open>
  Directory \<open>/A\<close> known but switched off, and a manager whose cache lists the same unit key
  twice, first from a file that no longer loads.
\<close>

definition manager_A_off :: CModelsManager where
  "manager_A_off =
     \<lparr>m_dirsList = [\<lparr>path = ''/A'', key = ''k'', active = False, checked = True\<rparr>],
      m_availableUnits = [], m_availableSolvers = [],
      m_loadedUnits = Map.empty, m_loadedSolvers = Map.empty, effects = []\<rparr>"

definition manager_dup :: CModelsManager where
  "manager_dup =
     \<lparr>m_dirsList = [\<lparr>path = ''/A'', key = ''k'', active = True, checked = True\<rparr>,
                    \<lparr>path = ''/E'', key = ''kk'', active = True, checked = True\<rparr>],
      m_availableUnits = [unit_descr ''U1'' ''/A/gone.so'' ''k'' 0,
                          unit_descr ''U1'' ''/E/u1.so'' ''kk'' 1],
      m_availableSolvers = [],
      m_loadedUnits = Map.empty, m_loadedSolvers = Map.empty, effects = []\<rparr>"

text \<open>
  A solver factory slot that cannot yield a descriptor without ending the probe: the name
  is in the table and either the symbol is missing, or the factory throws a
  \<open>std::logic_error\<close>, or it constructs an instance with another compiler version.
\<close>

definition rejected_solver_factory :: "env \<Rightarrow> lib_handle \<Rightarrow> nat \<Rightarrow> bool" where
  "rejected_solver_factory e lib i =
     (i < length (CREATE_SOLVER_FUN_NAMES e) \<and>
      (case LoadDyssolLibraryConstructor e lib (CREATE_SOLVER_FUN_NAMES e ! i) of
         None \<Rightarrow> True
       | Some (Inl (LogicError msg)) \<Rightarrow> True
       | Some (Inl (OtherException msg)) \<Rightarrow> False
       | Some (Inr None) \<Rightarrow> False
       | Some (Inr (Some p)) \<Rightarrow> solver_m_nCompilerVer (solver_at e p) \<noteq> COMPILER_VERSION e))"

text \<open>
  The same for the unit factory of a library: the symbol is missing, or the factory throws
  a \<open>std::logic_error\<close>, or it constructs an instance with another compiler version.
\<close>

definition rejected_unit_factory :: "env \<Rightarrow> lib_handle \<Rightarrow> bool" where
  "rejected_unit_factory e lib =
     (case LoadDyssolLibraryConstructor e lib (DYSSOL_CREATE_MODEL_FUN_NAME e) of
        None \<Rightarrow> True
      | Some (Inl (LogicError msg)) \<Rightarrow> True
      | Some (Inl (OtherException msg)) \<Rightarrow> False
      | Some (Inr None) \<Rightarrow> False
      | Some (Inr (Some p)) \<Rightarrow> unit_m_nCompilerVer (unit_at e p) \<noteq> COMPILER_VERSION e)"


text \<open>
  Where a descriptor comes from: the probe of library \<open>lib\<close> of file \<open>f\<close> constructed an
  instance whose compiler version is the host's and filled the descriptor from it; for a
  solver, through the factory of solver type \<open>i\<close>. A listed descriptor has such an origin
  in a file of the directory.
\<close>

definition unit_of_matching_instance :: "env \<Rightarrow> string \<Rightarrow> lib_handle \<Rightarrow> SUnitDescriptor \<Rightarrow> bool" where
  "unit_of_matching_instance e f lib d =
     (case LoadDyssolLibraryConstructor e lib (DYSSOL_CREATE_MODEL_FUN_NAME e) of
        Some (Inr (Some p)) \<Rightarrow>
          unit_m_nCompilerVer (unit_at e p) = COMPILER_VERSION e \<and>
          d = unit_descriptor_of e f (unit_at e p)
      | _ \<Rightarrow> False)"

definition solver_of_matching_instance ::
  "env \<Rightarrow> string \<Rightarrow> lib_handle \<Rightarrow> SSolverDescriptor \<Rightarrow> nat \<Rightarrow> bool" where
  "solver_of_matching_instance e f lib d i =
     (case LoadDyssolLibraryConstructor e lib (CREATE_SOLVER_FUN_NAMES e ! i) of
        Some (Inr (Some p)) \<Rightarrow>
          solver_m_nCompilerVer (solver_at e p) = COMPILER_VERSION e \<and>
          solver_descriptor_of e f (solver_at e p) = Some d
      | _ \<Rightarrow> False)"

definition listed_unit_origin :: "env \<Rightarrow> SUnitDescriptor \<Rightarrow> string \<Rightarrow> bool" where
  "listed_unit_origin e d f =
     (case LoadDyssolLibrary e f of
        None \<Rightarrow> False
      | Some lib \<Rightarrow> unit_of_matching_instance e f lib d)"

definition listed_solver_origin :: "env \<Rightarrow> SSolverDescriptor \<Rightarrow> string \<Rightarrow> bool" where
  "listed_solver_origin e d f =
     (case LoadDyssolLibrary e f of
        None \<Rightarrow> False
      | Some lib \<Rightarrow>
          list_ex (solver_of_matching_instance e f lib d) [1 ..< Suc (SOLVERS_TYPES_NUMBER e)])"


text \<open>
  The installation with a directory \<open>/M\<close> of two more libraries. \<open>/M/mixed.so\<close> exports a
  unit factory whose instance has compiler version 6 and a solver factory whose instance
  has version 7; \<open>/M/two.so\<close> exports two solver factories, the first with an instance of
  version 6, the second with one of version 7.
\<close>

definition mixed_env :: env where
  "mixed_env =
     example_env
       \<lparr>dl_open := (\<lambda>f. if f = ''/M/mixed.so'' then Some 10
                        else if f = ''/M/two.so'' then Some 11 else dl_open example_env f),
        dl_sym := (\<lambda>h n. if h = 10 \<and> n = ''CreateUnit'' then Some (Inr (Some 30))
                        else if h = 10 \<and> n = ''CreateSolver1'' then Some (Inr (Some 32))
                        else if h = 11 \<and> n = ''CreateSolver1'' then Some (Inr (Some 31))
                        else if h = 11 \<and> n = ''CreateSolver2'' then Some (Inr (Some 33))
                        else dl_sym example_env h n),
        solver_at := (\<lambda>p. if p = 32 then example_solver ''S2'' 7
                        else if p = 33 then example_solver ''S3'' 7 else solver_at example_env p),
        FilesList := (\<lambda>d. if d = ''/M'' then [''/M/mixed.so'', ''/M/two.so'']
                        else FilesList example_env d)\<rparr>"

definition solver_descr :: "string \<Rightarrow> string \<Rightarrow> SSolverDescriptor" where
  "solver_descr uid file =
     \<lparr>uniqueID = uid, name = ''Solver'', author = ''Author'', version = 1, fileLocation = file,
      dirKey = [], position = 0, solverType = 1\<rparr>"

text \<open>
  The position of a descriptor after the directory at index \<open>i\<close> has been erased from the
  list: directories behind it move up by one.
\<close>

definition position_after_erase :: "nat \<Rightarrow> 'a SModelDescriptor_scheme \<Rightarrow> 'a SModelDescriptor_scheme" where
  "position_after_erase i m = m\<lparr>position := (if position m < i then position m else position m - 1)\<rparr>"

text \<open>
  The same installation with the sort that reverses equivalent elements, and two managers
  whose directories have not been scanned yet.
\<close>

definition unstable_env :: env where
  "unstable_env = example_env\<lparr>sort_units := reversing_sort, sort_solvers := reversing_sort\<rparr>"

definition manager_A_new :: CModelsManager where
  "manager_A_new =
     empty_manager\<lparr>m_dirsList := [\<lparr>path = ''/A'', key = ''k'', active = True, checked = False\<rparr>]\<rparr>"

definition manager_AB_new :: CModelsManager where
  "manager_AB_new =
     empty_manager\<lparr>m_dirsList := [\<lparr>path = ''/A'', key = ''k'', active = True, checked = False\<rparr>,
                                   \<lparr>path = ''/B'', key = ''kk'', active = True, checked = False\<rparr>]\<rparr>"

section \<open>Unit parameters (ModelsAPI/UnitParameters.h)\<close>

text \<open>
  The header declares the parameter classes with their data members and member functions;
  the bodies are in files that are not among the sources. A \<open>double\<close> is a real number
  here, a \<open>size_t\<close> a natural number, and a \<open>std::map\<close> the list of its entries.
\<close>

datatype EUnitParameter =
    UNKNOWN | TIME_DEPENDENT | CONSTANT | STRING | CHECKBOX | SOLVER | COMBO | GROUP | COMPOUND

record CBaseUnitParameter =
  m_type :: EUnitParameter
  m_name :: string
  m_units :: string
  m_description :: string

record CConstUnitParameter = CBaseUnitParameter +
  const_m_value :: real
  const_m_min :: real
  const_m_max :: real

record CTDUnitParameter = CBaseUnitParameter +
  td_m_values :: "(real \<times> real) list"
  td_m_min :: real
  td_m_max :: real

record CStringUnitParameter = CBaseUnitParameter +
  string_m_value :: string

record CCheckboxUnitParameter = CBaseUnitParameter +
  m_checked :: bool

record CSolverUnitParameter = CBaseUnitParameter +
  solver_m_key :: string
  m_solverType :: nat

record CComboUnitParameter = CBaseUnitParameter +
  m_items :: "(nat \<times> string) list"
  m_selected :: nat

record CCompoundUnitParameter = CBaseUnitParameter +
  compound_m_key :: string

text \<open>
  What a \<open>CBaseUnitParameter*\<close> of the manager points to: an object of one of the concrete
  classes (\<open>CGroupUnitParameter\<close> derives from \<open>CComboUnitParameter\<close> and adds no member).
\<close>

datatype unit_parameter =
    ConstParameter CConstUnitParameter
  | TDParameter CTDUnitParameter
  | StringParameter CStringUnitParameter
  | CheckboxParameter CCheckboxUnitParameter
  | SolverParameter CSolverUnitParameter
  | ComboParameter CComboUnitParameter
  | GroupParameter CComboUnitParameter
  | CompoundParameter CCompoundUnitParameter

record CUnitParametersManager =
  m_parameters :: "unit_parameter list"
  m_groups :: "(nat \<times> (nat \<times> nat list) list) list"

subsection \<open>Reading a time-dependent parameter\<close>

text \<open>
  Modelled from the spec: \<open>CTDUnitParameter::GetValue\<close> is only declared in
  UnitParameters.h; its body and the class \<open>CDependentValues\<close> of \<open>m_values\<close> are missing.
  The spec has the values as an ordered mapping from time to value with unique, increasing
  times, and the read as: no points defined, the default 0.0; \<open>t\<close> before the first
  defined point, the first value; after the last, the last value; otherwise the linear
  interpolation between the two bracketing points.
\<close>

fun interpolate_between :: "(real \<times> real) list \<Rightarrow> real \<Rightarrow> real" where
  "interpolate_between [] t = 0"
| "interpolate_between [(t0, v0)] t = v0"
| "interpolate_between ((t0, v0) # (t1, v1) # rest) t =
     (if t \<le> t1 then v0 + (t - t0) * (v1 - v0) / (t1 - t0)
      else interpolate_between ((t1, v1) # rest) t)"

definition CDependentValues_GetValue :: "(real \<times> real) list \<Rightarrow> real \<Rightarrow> real" where
  "CDependentValues_GetValue points t =
     (if points = [] then 0
      else if t < fst (hd points) then snd (hd points)
      else if fst (last points) < t then snd (last points)
      else interpolate_between points t)"

definition increasing_times :: "(real \<times> real) list \<Rightarrow> bool" where
  "increasing_times points = sorted_wrt (<) (map fst points)"

definition CTDUnitParameter_GetValue :: "CTDUnitParameter \<Rightarrow> real \<Rightarrow> real" where
  "CTDUnitParameter_GetValue p t = CDependentValues_GetValue (td_m_values p) t"

definition example_td_parameter :: "(real \<times> real) list \<Rightarrow> CTDUnitParameter" where
  "example_td_parameter points =
     \<lparr>m_type = TIME_DEPENDENT, m_name = ''Flow'', m_units = ''kg/s'', m_description = ''Inflow'',
      td_m_values = points, td_m_min = 0, td_m_max = 100\<rparr>"

subsection \<open>Getters of the parameter manager\<close>

text \<open>
  Modelled from the spec: the getters are only declared in UnitParameters.h. Each is
  modelled from the comment of its declaration: the typed getter returns the parameter at
  the index if it exists and is of that kind, null otherwise; the value getter returns the
  kind's default (0, the empty string, false, \<open>-1\<close>) in that case.
\<close>

definition GetParameter :: "CUnitParametersManager \<Rightarrow> nat \<Rightarrow> unit_parameter option" where
  "GetParameter R i = (if i < length (m_parameters R) then Some (m_parameters R ! i) else None)"

definition GetGroupParameter :: "CUnitParametersManager \<Rightarrow> nat \<Rightarrow> CComboUnitParameter option" where
  "GetGroupParameter R i =
     (case GetParameter R i of Some (GroupParameter p) \<Rightarrow> Some p | _ \<Rightarrow> None)"

text \<open>The value \<open>-1\<close> of a \<open>size_t\<close>.\<close>

definition size_t_minus_one :: nat where
  "size_t_minus_one = 2 ^ 64 - 1"

definition GetConstParameterValue :: "CUnitParametersManager \<Rightarrow> nat \<Rightarrow> real" where
  "GetConstParameterValue R i =
     (case GetParameter R i of Some (ConstParameter p) \<Rightarrow> const_m_value p | _ \<Rightarrow> 0)"

definition GetTDParameterValue :: "CUnitParametersManager \<Rightarrow> nat \<Rightarrow> real \<Rightarrow> real" where
  "GetTDParameterValue R i t =
     (case GetParameter R i of Some (TDParameter p) \<Rightarrow> CTDUnitParameter_GetValue p t | _ \<Rightarrow> 0)"

definition GetStringParameterValue :: "CUnitParametersManager \<Rightarrow> nat \<Rightarrow> string" where
  "GetStringParameterValue R i =
     (case GetParameter R i of Some (StringParameter p) \<Rightarrow> string_m_value p | _ \<Rightarrow> [])"

definition GetCheckboxParameterValue :: "CUnitParametersManager \<Rightarrow> nat \<Rightarrow> bool" where
  "GetCheckboxParameterValue R i =
     (case GetParameter R i of Some (CheckboxParameter p) \<Rightarrow> m_checked p | _ \<Rightarrow> False)"

definition GetSolverParameterValue :: "CUnitParametersManager \<Rightarrow> nat \<Rightarrow> string" where
  "GetSolverParameterValue R i =
     (case GetParameter R i of Some (SolverParameter p) \<Rightarrow> solver_m_key p | _ \<Rightarrow> [])"

definition GetComboParameterValue :: "CUnitParametersManager \<Rightarrow> nat \<Rightarrow> nat" where
  "GetComboParameterValue R i =
     (case GetParameter R i of Some (ComboParameter p) \<Rightarrow> m_selected p | _ \<Rightarrow> size_t_minus_one)"

definition GetGroupParameterValue :: "CUnitParametersManager \<Rightarrow> nat \<Rightarrow> nat" where
  "GetGroupParameterValue R i =
     (case GetParameter R i of Some (GroupParameter p) \<Rightarrow> m_selected p | _ \<Rightarrow> size_t_minus_one)"

definition GetCompoundParameterValue :: "CUnitParametersManager \<Rightarrow> nat \<Rightarrow> string" where
  "GetCompoundParameterValue R i =
     (case GetParameter R i of Some (CompoundParameter p) \<Rightarrow> compound_m_key p | _ \<Rightarrow> [])"

subsection \<open>The group map\<close>

text \<open>
  Modelled from the spec: \<open>AddToGroup\<close> and \<open>IsParameterActive\<close> are only declared in
  UnitParameters.h. The group map takes a parameter index to the blocks it is registered
  under, and a block to the list of registered group ids. \<open>AddToGroup\<close> makes a parameter
  a member of a block and group. A parameter with no entries in the group map is always
  active; a parameter with entries is active iff, for at least one block it is registered
  under, the group parameter acting as that block has a selected value equal to one of the
  parameter's registered group ids for that block.
\<close>

definition blocks_of :: "(nat \<times> (nat \<times> nat list) list) list \<Rightarrow> nat \<Rightarrow> (nat \<times> nat list) list" where
  "blocks_of groups iParameter = (case map_of groups iParameter of None \<Rightarrow> [] | Some bs \<Rightarrow> bs)"

definition groups_of :: "(nat \<times> (nat \<times> nat list) list) list \<Rightarrow> nat \<Rightarrow> nat \<Rightarrow> nat list" where
  "groups_of groups iParameter iBlock =
     (case map_of (blocks_of groups iParameter) iBlock of None \<Rightarrow> [] | Some gs \<Rightarrow> gs)"

definition AddToGroup ::
  "nat \<Rightarrow> nat \<Rightarrow> nat \<Rightarrow> (nat \<times> (nat \<times> nat list) list) list \<Rightarrow>
   (nat \<times> (nat \<times> nat list) list) list" where
  "AddToGroup iParameter iBlock iGroup groups =
     AList.update iParameter
       (AList.update iBlock (groups_of groups iParameter iBlock @ [iGroup])
          (blocks_of groups iParameter))
       groups"

definition IsParameterActive :: "CUnitParametersManager \<Rightarrow> nat \<Rightarrow> bool" where
  "IsParameterActive R i =
     (case map_of (m_groups R) i of
        None \<Rightarrow> True
      | Some blocks \<Rightarrow>
          list_ex (\<lambda>(iBlock, gs).
             case GetGroupParameter R iBlock of
               None \<Rightarrow> False
             | Some block \<Rightarrow> m_selected block \<in> set gs) blocks)"

subsection \<open>Saving and loading\<close>

text \<open>
  Modelled from the spec: \<open>SaveToFile\<close> and \<open>LoadFromFile\<close> of the manager and of the
  parameter classes are only declared in UnitParameters.h, and \<open>CH5Handler\<close> is missing.
  The spec has a hierarchical keyed store addressed by paths; every parameter is
  serialised under the given path prefix, tagged by kind and by a per-kind format version
  number, each kind writing its fields; the manager also persists the group map as
  (parameter index, block index, group id) triples. Loading degrades to defaults for
  missing fields rather than failing, and rebuilds the group map from the triples.
\<close>

text \<open>
  A path is the list of its levels; a level is a name, or the index of a parameter below
  the prefix of the manager.
\<close>

datatype h5name = Name string | Index nat

datatype h5data =
    H5Nat nat
  | H5Real real
  | H5Bool bool
  | H5Str string
  | H5Reals "real list"
  | H5Nats "nat list"
  | H5Strs "string list"
  | H5Triples "(nat \<times> nat \<times> nat) list"

type_synonym h5file = "h5name list \<rightharpoonup> h5data"

definition write_fields :: "h5name list \<Rightarrow> (string \<times> h5data) list \<Rightarrow> h5file \<Rightarrow> h5file" where
  "write_fields loc entries file = fold (\<lambda>(n, d) f. f(loc @ [Name n] \<mapsto> d)) entries file"

definition read_nat :: "h5file \<Rightarrow> h5name list \<Rightarrow> string \<Rightarrow> nat \<Rightarrow> nat" where
  "read_nat file loc n dflt = (case file (loc @ [Name n]) of Some (H5Nat v) \<Rightarrow> v | _ \<Rightarrow> dflt)"

definition read_real :: "h5file \<Rightarrow> h5name list \<Rightarrow> string \<Rightarrow> real \<Rightarrow> real" where
  "read_real file loc n dflt = (case file (loc @ [Name n]) of Some (H5Real v) \<Rightarrow> v | _ \<Rightarrow> dflt)"

definition read_bool :: "h5file \<Rightarrow> h5name list \<Rightarrow> string \<Rightarrow> bool \<Rightarrow> bool" where
  "read_bool file loc n dflt = (case file (loc @ [Name n]) of Some (H5Bool v) \<Rightarrow> v | _ \<Rightarrow> dflt)"

definition read_str :: "h5file \<Rightarrow> h5name list \<Rightarrow> string \<Rightarrow> string" where
  "read_str file loc n = (case file (loc @ [Name n]) of Some (H5Str v) \<Rightarrow> v | _ \<Rightarrow> [])"

definition read_reals :: "h5file \<Rightarrow> h5name list \<Rightarrow> string \<Rightarrow> real list" where
  "read_reals file loc n = (case file (loc @ [Name n]) of Some (H5Reals v) \<Rightarrow> v | _ \<Rightarrow> [])"

definition read_nats :: "h5file \<Rightarrow> h5name list \<Rightarrow> string \<Rightarrow> nat list" where
  "read_nats file loc n = (case file (loc @ [Name n]) of Some (H5Nats v) \<Rightarrow> v | _ \<Rightarrow> [])"

definition read_strs :: "h5file \<Rightarrow> h5name list \<Rightarrow> string \<Rightarrow> string list" where
  "read_strs file loc n = (case file (loc @ [Name n]) of Some (H5Strs v) \<Rightarrow> v | _ \<Rightarrow> [])"

definition read_triples :: "h5file \<Rightarrow> h5name list \<Rightarrow> string \<Rightarrow> (nat \<times> nat \<times> nat) list" where
  "read_triples file loc n = (case file (loc @ [Name n]) of Some (H5Triples v) \<Rightarrow> v | _ \<Rightarrow> [])"

text \<open>The values of the enumeration \<open>EUnitParameter\<close>, as the header gives them.\<close>

fun type_code :: "EUnitParameter \<Rightarrow> nat" where
  "type_code UNKNOWN = 0"
| "type_code TIME_DEPENDENT = 1"
| "type_code CONSTANT = 2"
| "type_code STRING = 3"
| "type_code CHECKBOX = 4"
| "type_code SOLVER = 5"
| "type_code COMBO = 6"
| "type_code GROUP = 7"
| "type_code COMPOUND = 8"

text \<open>
  The format version every kind writes (\<open>m_cnSaveVersion\<close>; the header declares it, its
  value is in the missing bodies, and loading does not depend on it).
\<close>

definition m_cnSaveVersion :: nat where
  "m_cnSaveVersion = 1"

definition base_fields :: "'a CBaseUnitParameter_scheme \<Rightarrow> (string \<times> h5data) list" where
  "base_fields p =
     [(''Type'', H5Nat (type_code (m_type p))), (''SaveVersion'', H5Nat m_cnSaveVersion),
      (''Name'', H5Str (m_name p)), (''Units'', H5Str (m_units p)),
      (''Description'', H5Str (m_description p))]"

fun parameter_fields :: "unit_parameter \<Rightarrow> (string \<times> h5data) list" where
  "parameter_fields (ConstParameter p) =
     base_fields p @ [(''Value'', H5Real (const_m_value p)), (''Min'', H5Real (const_m_min p)),
                      (''Max'', H5Real (const_m_max p))]"
| "parameter_fields (TDParameter p) =
     base_fields p @ [(''Times'', H5Reals (map fst (td_m_values p))),
                      (''Values'', H5Reals (map snd (td_m_values p))),
                      (''Min'', H5Real (td_m_min p)), (''Max'', H5Real (td_m_max p))]"
| "parameter_fields (StringParameter p) = base_fields p @ [(''Value'', H5Str (string_m_value p))]"
| "parameter_fields (CheckboxParameter p) = base_fields p @ [(''Checked'', H5Bool (m_checked p))]"
| "parameter_fields (SolverParameter p) =
     base_fields p @ [(''Key'', H5Str (solver_m_key p)), (''SolverType'', H5Nat (m_solverType p))]"
| "parameter_fields (ComboParameter p) =
     base_fields p @ [(''Items'', H5Nats (map fst (m_items p))),
                      (''ItemsNames'', H5Strs (map snd (m_items p))),
                      (''Selected'', H5Nat (m_selected p))]"
| "parameter_fields (GroupParameter p) =
     base_fields p @ [(''Items'', H5Nats (map fst (m_items p))),
                      (''ItemsNames'', H5Strs (map snd (m_items p))),
                      (''Selected'', H5Nat (m_selected p))]"
| "parameter_fields (CompoundParameter p) = base_fields p @ [(''Key'', H5Str (compound_m_key p))]"

text \<open>The loop of the manager's \<open>SaveToFile\<close> over the parameters, from index \<open>i\<close> on.\<close>

fun save_parameters :: "h5name list \<Rightarrow> nat \<Rightarrow> unit_parameter list \<Rightarrow> h5file \<Rightarrow> h5file" where
  "save_parameters prefix i [] file = file"
| "save_parameters prefix i (p # ps) file =
     save_parameters prefix (Suc i) ps (write_fields (prefix @ [Index i]) (parameter_fields p) file)"

definition group_triples :: "(nat \<times> (nat \<times> nat list) list) list \<Rightarrow> (nat \<times> nat \<times> nat) list" where
  "group_triples groups =
     concat (map (\<lambda>(iParameter, blocks).
       concat (map (\<lambda>(iBlock, gs). map (\<lambda>iGroup. (iParameter, iBlock, iGroup)) gs) blocks)) groups)"

definition SaveToFile :: "CUnitParametersManager \<Rightarrow> h5file \<Rightarrow> h5name list \<Rightarrow> h5file" where
  "SaveToFile R h5Saver prefix =
     save_parameters prefix 0 (m_parameters R)
       (write_fields prefix
          [(''SaveVersion'', H5Nat m_cnSaveVersion),
           (''ParametersNumber'', H5Nat (length (m_parameters R))),
           (''Groups'', H5Triples (group_triples (m_groups R)))] h5Saver)"

definition load_base :: "h5file \<Rightarrow> h5name list \<Rightarrow> EUnitParameter \<Rightarrow> CBaseUnitParameter" where
  "load_base file loc ty =
     \<lparr>m_type = ty, m_name = read_str file loc ''Name'', m_units = read_str file loc ''Units'',
      m_description = read_str file loc ''Description''\<rparr>"

definition load_parameter :: "h5file \<Rightarrow> h5name list \<Rightarrow> unit_parameter option" where
  "load_parameter file loc =
     (let c = read_nat file loc ''Type'' 0 in
      if c = 1 then Some (TDParameter (CBaseUnitParameter.extend (load_base file loc TIME_DEPENDENT)
          (CTDUnitParameter.fields
             (zip (read_reals file loc ''Times'') (read_reals file loc ''Values''))
             (read_real file loc ''Min'' 0) (read_real file loc ''Max'' 0))))
      else if c = 2 then Some (ConstParameter (CBaseUnitParameter.extend (load_base file loc CONSTANT)
          (CConstUnitParameter.fields (read_real file loc ''Value'' 0)
             (read_real file loc ''Min'' 0) (read_real file loc ''Max'' 0))))
      else if c = 3 then Some (StringParameter (CBaseUnitParameter.extend (load_base file loc STRING)
          (CStringUnitParameter.fields (read_str file loc ''Value''))))
      else if c = 4 then Some (CheckboxParameter (CBaseUnitParameter.extend (load_base file loc CHECKBOX)
          (CCheckboxUnitParameter.fields (read_bool file loc ''Checked'' False))))
      else if c = 5 then Some (SolverParameter (CBaseUnitParameter.extend (load_base file loc SOLVER)
          (CSolverUnitParameter.fields (read_str file loc ''Key'')
             (read_nat file loc ''SolverType'' 0))))
      else if c = 6 then Some (ComboParameter (CBaseUnitParameter.extend (load_base file loc COMBO)
          (CComboUnitParameter.fields
             (zip (read_nats file loc ''Items'') (read_strs file loc ''ItemsNames''))
             (read_nat file loc ''Selected'' size_t_minus_one))))
      else if c = 7 then Some (GroupParameter (CBaseUnitParameter.extend (load_base file loc GROUP)
          (CComboUnitParameter.fields
             (zip (read_nats file loc ''Items'') (read_strs file loc ''ItemsNames''))
             (read_nat file loc ''Selected'' size_t_minus_one))))
      else if c = 8 then Some (CompoundParameter (CBaseUnitParameter.extend (load_base file loc COMPOUND)
          (CCompoundUnitParameter.fields (read_str file loc ''Key''))))
      else None)"

definition LoadFromFile :: "h5file \<Rightarrow> h5name list \<Rightarrow> CUnitParametersManager" where
  "LoadFromFile h5Loader prefix =
     \<lparr>m_parameters =
        List.map_filter (\<lambda>i. load_parameter h5Loader (prefix @ [Index i]))
          [0 ..< read_nat h5Loader prefix ''ParametersNumber'' 0],
      m_groups =
        fold (\<lambda>(iParameter, iBlock, iGroup). AddToGroup iParameter iBlock iGroup)
          (read_triples h5Loader prefix ''Groups'') []\<rparr>"

text \<open>
  What the constructors and \<open>AddToGroup\<close> establish: the type tag of every parameter is the
  one of its class; the keys of the group map and of every block map are pairwise
  different, and no registered list is empty.
\<close>

fun type_matches :: "unit_parameter \<Rightarrow> bool" where
  "type_matches (ConstParameter p) = (m_type p = CONSTANT)"
| "type_matches (TDParameter p) = (m_type p = TIME_DEPENDENT)"
| "type_matches (StringParameter p) = (m_type p = STRING)"
| "type_matches (CheckboxParameter p) = (m_type p = CHECKBOX)"
| "type_matches (SolverParameter p) = (m_type p = SOLVER)"
| "type_matches (ComboParameter p) = (m_type p = COMBO)"
| "type_matches (GroupParameter p) = (m_type p = GROUP)"
| "type_matches (CompoundParameter p) = (m_type p = COMPOUND)"

definition wf_blocks :: "(nat \<times> nat list) list \<Rightarrow> bool" where
  "wf_blocks blocks = (blocks \<noteq> [] \<and> distinct (map fst blocks) \<and> list_all (\<lambda>(b, gs). gs \<noteq> []) blocks)"

definition wf_groups :: "(nat \<times> (nat \<times> nat list) list) list \<Rightarrow> bool" where
  "wf_groups groups = (distinct (map fst groups) \<and> list_all (\<lambda>(i, blocks). wf_blocks blocks) groups)"

definition wf_manager :: "CUnitParametersManager \<Rightarrow> bool" where
  "wf_manager R = (list_all type_matches (m_parameters R) \<and> wf_groups (m_groups R))"

text \<open>
  The group map while the triples of one parameter are registered: the entry of the
  parameter is the last one, or not there yet.
\<close>

definition with_entry ::
  "(nat \<times> (nat \<times> nat list) list) list \<Rightarrow> nat \<Rightarrow> (nat \<times> nat list) list \<Rightarrow>
   (nat \<times> (nat \<times> nat list) list) list" where
  "with_entry acc p bs = (if bs = [] then acc else acc @ [(p, bs)])"

abbreviation (input) register ::
  "nat \<times> nat \<times> nat \<Rightarrow> (nat \<times> (nat \<times> nat list) list) list \<Rightarrow>
   (nat \<times> (nat \<times> nat list) list) list" where
  "register \<equiv> (\<lambda>(iParameter, iBlock, iGroup). AddToGroup iParameter iBlock iGroup)"

text \<open>
  A manager with a constant, a time-dependent, a group and a check box parameter; the
  first and the last are registered under the group parameter as block.
\<close>

definition example_manager :: CUnitParametersManager where
  "example_manager =
     \<lparr>m_parameters =
        [ConstParameter \<lparr>m_type = CONSTANT, m_name = ''Diameter'', m_units = ''m'',
           m_description = ''Pipe diameter'', const_m_value = 2, const_m_min = 0,
           const_m_max = 10\<rparr>,
         TDParameter (example_td_parameter [(0, 1), (10, 5)]),
         GroupParameter \<lparr>m_type = GROUP, m_name = ''Model'', m_units = [],
           m_description = ''Model selection'', m_items = [(0, ''Simple''), (1, ''Detailed'')],
           m_selected = 1\<rparr>,
         CheckboxParameter \<lparr>m_type = CHECKBOX, m_name = ''Verbose'', m_units = [],
           m_description = ''Print details'', m_checked = True\<rparr>],
      m_groups = [(0, [(2, [1])]), (3, [(2, [0])])]\<rparr>"

section \<open>Lemmas on the reconciliation\<close>

lemma IsToDelete_iff:
  "IsToDelete dirs m \<longleftrightarrow> \<not> (\<exists>d \<in> set dirs. active d \<and> key d = dirKey m)"
  by (induction dirs) auto

lemma mark_checked_fields:
  "key (mark_checked d) = key d"
  "path (mark_checked d) = path d"
  "active (mark_checked d) = active d"
  "checked (mark_checked d) = (checked d \<or> active d)"
  by (auto simp: mark_checked_def)

lemma add_models_dirs:
  "add_models_from_dirs e dirs us ss tr = Inr (dirs', us', ss', tr') \<Longrightarrow>
   dirs' = map mark_checked dirs"
proof (induction dirs arbitrary: us ss tr dirs' us' ss' tr')
  case Nil
  then show ?case by simp
next
  case (Cons d ds)
  then show ?case
    by (auto simp: mark_checked_def split: if_splits sum.splits prod.splits)
qed

lemma scanned_dirs_keys: "map key (map mark_checked dirs) = map key dirs"
  by (simp add: comp_def mark_checked_fields)

lemma scanned_dirs_active_key:
  "(\<exists>d \<in> set (map mark_checked dirs). active d \<and> key d = k) \<longleftrightarrow>
   (\<exists>d \<in> set dirs. active d \<and> key d = k)"
  by (simp add: mark_checked_fields)

lemma scanned_dirs_checked:
  "\<forall>d \<in> set (map mark_checked dirs). active d \<longrightarrow> checked d"
  by (simp add: mark_checked_fields)

lemma add_models_units:
  "add_models_from_dirs e dirs us ss tr = Inr (dirs', us', ss', tr') \<Longrightarrow>
   \<exists>new. us' = us @ new \<and> (\<forall>m \<in> set new. \<exists>d \<in> set dirs. active d \<and> \<not> checked d \<and> dirKey m = key d)"
proof (induction dirs arbitrary: us ss tr dirs' us' ss' tr')
  case Nil
  then show ?case by simp
next
  case (Cons d ds)
  show ?case
  proof (cases "active d \<and> \<not> checked d")
    case True
    from Cons.prems True obtain models tr1 ds' where
      g: "GetModelsList e (path d) tr = Inr (models, tr1)" and
      r: "add_models_from_dirs e ds (us @ map (\<lambda>unit. unit\<lparr>dirKey := key d\<rparr>) (fst models))
            (ss @ map (\<lambda>unit. unit\<lparr>dirKey := key d\<rparr>) (snd models)) tr1 = Inr (ds', us', ss', tr')"
      by (auto split: sum.splits prod.splits)
    from Cons.IH[OF r] obtain new where
      n: "us' = (us @ map (\<lambda>unit. unit\<lparr>dirKey := key d\<rparr>) (fst models)) @ new"
         "\<forall>m \<in> set new. \<exists>d \<in> set ds. active d \<and> \<not> checked d \<and> dirKey m = key d"
      by blast
    show ?thesis
      apply (rule exI[of _ "map (\<lambda>unit. unit\<lparr>dirKey := key d\<rparr>) (fst models) @ new"])
      using n True by auto
  next
    case False
    from Cons.prems False obtain ds' where
      r: "add_models_from_dirs e ds us ss tr = Inr (ds', us', ss', tr')"
      by (auto split: sum.splits prod.splits)
    from Cons.IH[OF r] show ?thesis by auto
  qed
qed

lemma add_models_solvers:
  "add_models_from_dirs e dirs us ss tr = Inr (dirs', us', ss', tr') \<Longrightarrow>
   \<exists>new. ss' = ss @ new \<and> (\<forall>m \<in> set new. \<exists>d \<in> set dirs. active d \<and> \<not> checked d \<and> dirKey m = key d)"
proof (induction dirs arbitrary: us ss tr dirs' us' ss' tr')
  case Nil
  then show ?case by simp
next
  case (Cons d ds)
  show ?case
  proof (cases "active d \<and> \<not> checked d")
    case True
    from Cons.prems True obtain models tr1 ds' where
      g: "GetModelsList e (path d) tr = Inr (models, tr1)" and
      r: "add_models_from_dirs e ds (us @ map (\<lambda>unit. unit\<lparr>dirKey := key d\<rparr>) (fst models))
            (ss @ map (\<lambda>unit. unit\<lparr>dirKey := key d\<rparr>) (snd models)) tr1 = Inr (ds', us', ss', tr')"
      by (auto split: sum.splits prod.splits)
    from Cons.IH[OF r] obtain new where
      n: "ss' = (ss @ map (\<lambda>unit. unit\<lparr>dirKey := key d\<rparr>) (snd models)) @ new"
         "\<forall>m \<in> set new. \<exists>d \<in> set ds. active d \<and> \<not> checked d \<and> dirKey m = key d"
      by blast
    show ?thesis
      apply (rule exI[of _ "map (\<lambda>unit. unit\<lparr>dirKey := key d\<rparr>) (snd models) @ new"])
      using n True by auto
  next
    case False
    from Cons.prems False obtain ds' where
      r: "add_models_from_dirs e ds us ss tr = Inr (ds', us', ss', tr')"
      by (auto split: sum.splits prod.splits)
    from Cons.IH[OF r] show ?thesis by auto
  qed
qed

lemma add_models_nothing_to_scan:
  "\<forall>d \<in> set dirs. active d \<longrightarrow> checked d \<Longrightarrow>
   add_models_from_dirs e dirs us ss tr = Inr (dirs, us, ss, tr)"
  by (induction dirs) auto

lemma fold_map_commute:
  "fold (\<lambda>i ms. map (g i) ms) is ms = map (\<lambda>m. fold g is m) ms"
  by (induction "is" arbitrary: ms) (auto)

lemma set_positions_map:
  "set_positions dirs ms = map (fold (position_step dirs) [0 ..< length dirs]) ms"
  unfolding set_positions_def position_step_def
  by (rule fold_map_commute)

lemma fold_upt_Suc: "fold f [0 ..< Suc n] m = f n (fold f [0 ..< n] m)"
  by simp

lemma fold_position_none:
  "\<forall>j < n. key (dirs ! j) \<noteq> dirKey m \<Longrightarrow> fold (position_step dirs) [0 ..< n] m = m"
proof (induction n)
  case 0
  then show ?case by simp
next
  case (Suc n)
  then have "fold (position_step dirs) [0 ..< n] m = m" by simp
  then have "fold (position_step dirs) [0 ..< Suc n] m = position_step dirs n m"
    by (simp only: fold_upt_Suc)
  also from Suc.prems have "\<dots> = m"
    unfolding position_step_def by auto
  finally show ?case .
qed

lemma fold_position_dirKey:
  "dirKey (fold (position_step dirs) [0 ..< n] m) = dirKey m"
proof (induction n)
  case 0
  then show ?case by simp
next
  case (Suc n)
  have "dirKey (position_step dirs n (fold (position_step dirs) [0 ..< n] m)) =
        dirKey (fold (position_step dirs) [0 ..< n] m)"
    unfolding position_step_def by simp
  with Suc show ?case
    by (simp only: fold_upt_Suc)
qed

lemma fold_position_unique:
  "i < n \<Longrightarrow> key (dirs ! i) = dirKey m \<Longrightarrow> \<forall>j < n. j \<noteq> i \<longrightarrow> key (dirs ! j) \<noteq> dirKey m \<Longrightarrow>
   fold (position_step dirs) [0 ..< n] m = m\<lparr>position := i\<rparr>"
proof (induction n)
  case 0
  then show ?case by simp
next
  case (Suc n)
  show ?case
  proof (cases "i = n")
    case True
    with Suc.prems have "fold (position_step dirs) [0 ..< n] m = m"
      by (intro fold_position_none) auto
    then have "fold (position_step dirs) [0 ..< Suc n] m = position_step dirs n m"
      by (simp only: fold_upt_Suc)
    also from True Suc.prems have "\<dots> = m\<lparr>position := i\<rparr>"
      unfolding position_step_def by simp
    finally show ?thesis .
  next
    case False
    with Suc.prems have "fold (position_step dirs) [0 ..< n] m = m\<lparr>position := i\<rparr>"
      by (intro Suc.IH) auto
    then have "fold (position_step dirs) [0 ..< Suc n] m = position_step dirs n (m\<lparr>position := i\<rparr>)"
      by (simp only: fold_upt_Suc)
    also from False Suc.prems have "\<dots> = m\<lparr>position := i\<rparr>"
      unfolding position_step_def by auto
    finally show ?thesis .
  qed
qed

lemma distinct_keys_unique:
  "distinct (map key dirs) \<Longrightarrow> i < length dirs \<Longrightarrow> j < length dirs \<Longrightarrow>
   key (dirs ! i) = key (dirs ! j) \<Longrightarrow> i = j"
  by (metis distinct_conv_nth length_map nth_map)

lemma position_of_owned:
  "distinct (map key dirs) \<Longrightarrow> i < length dirs \<Longrightarrow> key (dirs ! i) = dirKey m \<Longrightarrow>
   fold (position_step dirs) [0 ..< length dirs] m = m\<lparr>position := i\<rparr>"
  by (rule fold_position_unique) (auto dest: distinct_keys_unique)

lemma std_sort_set: "std_sort_contract srt \<Longrightarrow> set (srt xs) = set xs"
  unfolding std_sort_contract_def by (metis set_mset_mset)

lemma std_sort_length: "std_sort_contract srt \<Longrightarrow> length (srt xs) = length xs"
  unfolding std_sort_contract_def by (metis size_mset)

lemma std_sort_sorted: "std_sort_contract srt \<Longrightarrow> sorted (map position (srt xs))"
proof -
  assume "std_sort_contract srt"
  then have "sorted_wrt (\<lambda>a b. \<not> descriptor_less b a) (srt xs)"
    unfolding std_sort_contract_def by blast
  then have "sorted_wrt (\<lambda>a b. position a \<le> position b) (srt xs)"
    by (rule sorted_wrt_mono_rel[rotated]) (simp add: descriptor_less_def)
  then show ?thesis
    by (simp add: sorted_map)
qed

lemma UpdateAvailableModels_result:
  assumes "UpdateAvailableModels e st = Inr st'"
  obtains units solvers tr where
    "add_models_from_dirs e (m_dirsList st)
       (VectorDelete (m_availableUnits st) (IsToDelete (m_dirsList st)))
       (VectorDelete (m_availableSolvers st) (IsToDelete (m_dirsList st)))
       (effects st) = Inr (m_dirsList st', units, solvers, tr)"
    "m_availableUnits st' = sort_units e (set_positions (m_dirsList st') units)"
    "m_availableSolvers st' = sort_solvers e (set_positions (m_dirsList st') solvers)"
    "effects st' = tr"
    "m_loadedUnits st' = m_loadedUnits st"
    "m_loadedSolvers st' = m_loadedSolvers st"
  using assms unfolding UpdateAvailableModels_def
  by (auto split: sum.splits prod.splits)

lemma add_models_units_owned:
  assumes "add_models_from_dirs e dirs (VectorDelete us0 (IsToDelete dirs)) ss tr = Inr (dirs', us', ss', tr')"
  shows "\<forall>m \<in> set us'. \<exists>d \<in> set dirs'. active d \<and> key d = dirKey m"
proof
  fix m assume m: "m \<in> set us'"
  from add_models_units[OF assms] obtain new where
    n: "us' = VectorDelete us0 (IsToDelete dirs) @ new"
       "\<forall>m \<in> set new. \<exists>d \<in> set dirs. active d \<and> \<not> checked d \<and> dirKey m = key d"
    by blast
  have "\<exists>d \<in> set dirs. active d \<and> key d = dirKey m"
  proof (cases "m \<in> set new")
    case True
    with n(2) show ?thesis by force
  next
    case False
    with m n(1) have "\<not> IsToDelete dirs m"
      by (auto simp: VectorDelete_def)
    then show ?thesis by (simp add: IsToDelete_iff)
  qed
  then show "\<exists>d \<in> set dirs'. active d \<and> key d = dirKey m"
    unfolding add_models_dirs[OF assms] scanned_dirs_active_key .
qed

lemma add_models_solvers_owned:
  assumes "add_models_from_dirs e dirs us (VectorDelete ss0 (IsToDelete dirs)) tr = Inr (dirs', us', ss', tr')"
  shows "\<forall>m \<in> set ss'. \<exists>d \<in> set dirs'. active d \<and> key d = dirKey m"
proof
  fix m assume m: "m \<in> set ss'"
  from add_models_solvers[OF assms] obtain new where
    n: "ss' = VectorDelete ss0 (IsToDelete dirs) @ new"
       "\<forall>m \<in> set new. \<exists>d \<in> set dirs. active d \<and> \<not> checked d \<and> dirKey m = key d"
    by blast
  have "\<exists>d \<in> set dirs. active d \<and> key d = dirKey m"
  proof (cases "m \<in> set new")
    case True
    with n(2) show ?thesis by force
  next
    case False
    with m n(1) have "\<not> IsToDelete dirs m"
      by (auto simp: VectorDelete_def)
    then show ?thesis by (simp add: IsToDelete_iff)
  qed
  then show "\<exists>d \<in> set dirs'. active d \<and> key d = dirKey m"
    unfolding add_models_dirs[OF assms] scanned_dirs_active_key .
qed

lemma set_positions_owned:
  assumes "\<forall>m \<in> set ms. \<exists>d \<in> set dirs. active d \<and> key d = dirKey m"
  shows "\<forall>m \<in> set (set_positions dirs ms). \<exists>d \<in> set dirs. active d \<and> key d = dirKey m"
  using assms unfolding set_positions_map
  by (auto simp: fold_position_dirKey)

lemma set_positions_ok:
  assumes d: "distinct (map key dirs)"
    and o: "\<forall>m \<in> set ms. \<exists>d \<in> set dirs. active d \<and> key d = dirKey m"
  shows "positions_ok dirs (set_positions dirs ms)"
  unfolding positions_ok_def
proof
  fix m' assume "m' \<in> set (set_positions dirs ms)"
  then obtain m where m: "m \<in> set ms" "m' = fold (position_step dirs) [0 ..< length dirs] m"
    unfolding set_positions_map by auto
  from o m(1) obtain dir where "dir \<in> set dirs" "active dir" "key dir = dirKey m"
    by blast
  then obtain i where i: "i < length dirs" "active (dirs ! i)" "key (dirs ! i) = dirKey m"
    by (auto simp: in_set_conv_nth)
  from position_of_owned[OF d i(1) i(3)] m(2) have "m' = m\<lparr>position := i\<rparr>"
    by simp
  with i show "\<exists>i<length dirs. active (dirs ! i) \<and> key (dirs ! i) = dirKey m' \<and> position m' = i"
    by auto
qed

lemma positions_ok_cong: "set xs = set ys \<Longrightarrow> positions_ok dirs xs = positions_ok dirs ys"
  by (simp add: positions_ok_def)

lemma sorted_positions_order:
  assumes s: "sorted (map position ms)"
    and p: "positions_ok dirs ms"
    and d: "distinct (map key dirs)"
    and ij: "i < j" "j < length dirs"
    and m: "m < length ms" "dirKey (ms ! m) = key (dirs ! i)"
    and n: "n < length ms" "dirKey (ms ! n) = key (dirs ! j)"
  shows "m < n"
proof (rule ccontr)
  assume "\<not> m < n"
  then have "n \<le> m" by simp
  with s m(1) have le: "position (ms ! n) \<le> position (ms ! m)"
    by (simp add: sorted_iff_nth_mono)
  from p m obtain i' where i': "i' < length dirs" "key (dirs ! i') = dirKey (ms ! m)" "position (ms ! m) = i'"
    unfolding positions_ok_def by (metis nth_mem)
  from p n obtain j' where j': "j' < length dirs" "key (dirs ! j') = dirKey (ms ! n)" "position (ms ! n) = j'"
    unfolding positions_ok_def by (metis nth_mem)
  from i' m ij have "i' = i" by (intro distinct_keys_unique[OF d]) auto
  moreover from j' n ij have "j' = j" by (intro distinct_keys_unique[OF d]) auto
  ultimately show False using le i' j' ij by simp
qed

lemma UpdateAvailableModels_reconciled:
  assumes d: "distinct (map key (m_dirsList st))"
    and su: "std_sort_contract (sort_units e)"
    and ss: "std_sort_contract (sort_solvers e)"
    and u: "UpdateAvailableModels e st = Inr st'"
  shows "reconciled st'"
proof -
  from u obtain units solvers tr where
    r: "add_models_from_dirs e (m_dirsList st)
       (VectorDelete (m_availableUnits st) (IsToDelete (m_dirsList st)))
       (VectorDelete (m_availableSolvers st) (IsToDelete (m_dirsList st)))
       (effects st) = Inr (m_dirsList st', units, solvers, tr)"
    and us: "m_availableUnits st' = sort_units e (set_positions (m_dirsList st') units)"
    and sv: "m_availableSolvers st' = sort_solvers e (set_positions (m_dirsList st') solvers)"
    by (rule UpdateAvailableModels_result)
  note dirs = add_models_dirs[OF r]
  have d': "distinct (map key (m_dirsList st'))"
    using d by (subst dirs) (simp only: scanned_dirs_keys)
  have c': "\<forall>dir \<in> set (m_dirsList st'). active dir \<longrightarrow> checked dir"
    by (subst dirs) (rule scanned_dirs_checked)
  have "positions_ok (m_dirsList st') (set_positions (m_dirsList st') units)"
    by (rule set_positions_ok[OF d' add_models_units_owned[OF r]])
  then have pu: "positions_ok (m_dirsList st') (m_availableUnits st')"
    unfolding us using positions_ok_cong[OF std_sort_set[OF su]] by blast
  have "positions_ok (m_dirsList st') (set_positions (m_dirsList st') solvers)"
    by (rule set_positions_ok[OF d' add_models_solvers_owned[OF r]])
  then have ps: "positions_ok (m_dirsList st') (m_availableSolvers st')"
    unfolding sv using positions_ok_cong[OF std_sort_set[OF ss]] by blast
  from d' c' pu ps show ?thesis
    by (simp add: reconciled_def)
qed

section \<open>Adding a directory twice\<close>

text \<open>
  C10. \<open>AddDir\<close> with a path that is already in the directory list returns false and
  leaves the whole manager as it was: the directory list with every key and flag, both
  descriptor caches, the maps of loaded instances, and no library is touched.
\<close>

theorem AddDir_existing_path_unchanged:
  assumes "p \<in> path ` set (m_dirsList st)"
  shows "AddDir e p a st = Inr (False, st)"
proof -
  from assms have "find (\<lambda>entry. path entry = p) (m_dirsList st) \<noteq> None"
    by (auto simp: find_None_iff)
  then show ?thesis
    by (auto simp: AddDir_def)
qed

theorem AddDir_existing_path_unchanged_witness:
  "''/B'' \<in> path ` set (m_dirsList manager_AB) \<and>
   AddDir example_env ''/B'' False manager_AB = Inr (False, manager_AB)"
proof -
  have h: "''/B'' \<in> path ` set (m_dirsList manager_AB)"
    by (simp add: manager_AB_def)
  from AddDir_existing_path_unchanged[OF h] h show ?thesis
    by blast
qed

section \<open>Freeing instances\<close>

text \<open>
  C6. \<open>FreeUnit\<close> and \<open>FreeSolver\<close> leave the manager unchanged for a null pointer and for
  a pointer that is not in the map of live instances. For a known pointer they erase the
  entry, delete the instance and close the library, in that order, and nothing else
  changes; a second free of the same pointer is then a no-op.
\<close>

theorem Free_noop_or_erase_delete_close:
  "FreeUnit None st = st \<and> FreeSolver None st = st \<and>
   (m_loadedUnits st p = None \<longrightarrow> FreeUnit (Some p) st = st) \<and>
   (m_loadedSolvers st p = None \<longrightarrow> FreeSolver (Some p) st = st) \<and>
   (m_loadedUnits st p = Some h \<longrightarrow>
      FreeUnit (Some p) st =
        st\<lparr>m_loadedUnits := (m_loadedUnits st)(p := None),
           effects := effects st @ [MappingErased p, InstanceDeleted p, LibraryClosed h]\<rparr> \<and>
      FreeUnit (Some p) (FreeUnit (Some p) st) = FreeUnit (Some p) st) \<and>
   (m_loadedSolvers st p = Some h \<longrightarrow>
      FreeSolver (Some p) st =
        st\<lparr>m_loadedSolvers := (m_loadedSolvers st)(p := None),
           effects := effects st @ [MappingErased p, InstanceDeleted p, LibraryClosed h]\<rparr> \<and>
      FreeSolver (Some p) (FreeSolver (Some p) st) = FreeSolver (Some p) st)"
  by (simp add: FreeUnit_def FreeSolver_def CloseDyssolLibrary_def)

theorem Free_noop_or_erase_delete_close_witness:
  "m_loadedUnits (manager_AB\<lparr>m_loadedUnits := [11 \<mapsto> 1]\<rparr>) 11 = Some 1 \<and>
   m_loadedUnits (manager_AB\<lparr>m_loadedUnits := [11 \<mapsto> 1]\<rparr>) 12 = None \<and>
   m_loadedSolvers (manager_AB\<lparr>m_loadedSolvers := [21 \<mapsto> 2]\<rparr>) 21 = Some 2 \<and>
   m_loadedSolvers (manager_AB\<lparr>m_loadedSolvers := [21 \<mapsto> 2]\<rparr>) 22 = None \<and>
   FreeUnit (Some 12) (manager_AB\<lparr>m_loadedUnits := [11 \<mapsto> 1]\<rparr>) =
     manager_AB\<lparr>m_loadedUnits := [11 \<mapsto> 1]\<rparr> \<and>
   effects (FreeUnit (Some 11) (manager_AB\<lparr>m_loadedUnits := [11 \<mapsto> 1]\<rparr>)) =
     [MappingErased 11, InstanceDeleted 11, LibraryClosed 1] \<and>
   m_loadedUnits (FreeUnit (Some 11) (manager_AB\<lparr>m_loadedUnits := [11 \<mapsto> 1]\<rparr>)) 11 = None \<and>
   FreeSolver (Some 22) (manager_AB\<lparr>m_loadedSolvers := [21 \<mapsto> 2]\<rparr>) =
     manager_AB\<lparr>m_loadedSolvers := [21 \<mapsto> 2]\<rparr> \<and>
   effects (FreeSolver (Some 21) (manager_AB\<lparr>m_loadedSolvers := [21 \<mapsto> 2]\<rparr>)) =
     [MappingErased 21, InstanceDeleted 21, LibraryClosed 2] \<and>
   m_loadedSolvers (FreeSolver (Some 21) (manager_AB\<lparr>m_loadedSolvers := [21 \<mapsto> 2]\<rparr>)) 21 = None"
  using Free_noop_or_erase_delete_close
          [of "manager_AB\<lparr>m_loadedUnits := [11 \<mapsto> 1]\<rparr>" 12 1]
        Free_noop_or_erase_delete_close
          [of "manager_AB\<lparr>m_loadedUnits := [11 \<mapsto> 1]\<rparr>" 11 1]
        Free_noop_or_erase_delete_close
          [of "manager_AB\<lparr>m_loadedSolvers := [21 \<mapsto> 2]\<rparr>" 22 2]
        Free_noop_or_erase_delete_close
          [of "manager_AB\<lparr>m_loadedSolvers := [21 \<mapsto> 2]\<rparr>" 21 2]
  by (simp add: manager_AB_def)

section \<open>Evaluation of the concrete installation\<close>

lemmas example_defs = example_env_def example_unit_def example_solver_def stable_sort_def
  reversing_sort_def unit_descr_def empty_unit_descriptor_def empty_solver_descriptor_def

lemmas scan_defs = UpdateAvailableModels_def GetModelsList_def GetAllModelsInDir_def
  TryGetUnitDescriptor_def TryGetSolverDescriptor_def unit_descriptor_of_def
  solver_descriptor_of_def VectorDelete_def set_positions_def

section \<open>Activity of a directory\<close>

text \<open>
  C4, as stated, at a directory that goes from inactive to active: when \<open>SetDirActivity\<close>
  returns, \<open>checked\<close> is true, not false, because the reconciliation it calls has scanned
  the directory.
\<close>

theorem SetDirActivity_checked_counterexample:
  "\<not> active (m_dirsList manager_A_off ! 0) \<and>
   SetDirActivity example_env 0 True manager_A_off =
     Inr (manager_A_off
       \<lparr>m_dirsList := [\<lparr>path = ''/A'', key = ''k'', active = True, checked = True\<rparr>],
        m_availableUnits := [unit_descr ''U1'' ''/A/a1.so'' ''k'' 0,
                             unit_descr ''U2'' ''/A/a2.so'' ''k'' 0],
        effects := [LibraryLoaded ''/A/a1.so'' 1, InstanceCreated 11, InstanceDeleted 11,
                    LibraryClosed 1, LibraryLoaded ''/A/a2.so'' 2, InstanceCreated 12,
                    InstanceDeleted 12, LibraryClosed 2]\<rparr>)"
  by (simp add: manager_A_off_def SetDirActivity_def SetDirActivity_flags_def example_defs scan_defs)

text \<open>
  C4, amended. For a valid index, the assignment in \<open>SetDirActivity\<close> leaves \<open>checked\<close>
  false exactly when the directory goes from inactive to active, so the directory meets
  the scan condition of the reconciliation (active and not checked) exactly then; the
  reconciliation that \<open>SetDirActivity\<close> ends with sets \<open>checked\<close>, so whenever
  \<open>SetDirActivity\<close> returns, \<open>checked\<close> is true and \<open>active\<close> is the requested flag.
\<close>

theorem SetDirActivity_checked_after:
  assumes "i < length (m_dirsList st)"
  shows "(\<not> checked (m_dirsList (SetDirActivity_flags i a st) ! i)) =
           (\<not> active (m_dirsList st ! i) \<and> a) \<and>
         active (m_dirsList (SetDirActivity_flags i a st) ! i) = a \<and>
         SetDirActivity e i a st = UpdateAvailableModels e (SetDirActivity_flags i a st) \<and>
         (\<forall>st'. SetDirActivity e i a st = Inr st' \<longrightarrow>
            checked (m_dirsList st' ! i) \<and> active (m_dirsList st' ! i) = a)"
proof -
  let ?f = "SetDirActivity_flags i a st"
  have len: "length (m_dirsList ?f) = length (m_dirsList st)"
    by (simp add: SetDirActivity_flags_def)
  have c: "(\<not> checked (m_dirsList ?f ! i)) = (\<not> active (m_dirsList st ! i) \<and> a)"
    using assms by (simp add: SetDirActivity_flags_def)
  have a: "active (m_dirsList ?f ! i) = a"
    using assms by (simp add: SetDirActivity_flags_def)
  have s: "SetDirActivity e i a st = UpdateAvailableModels e ?f"
    using assms by (simp add: SetDirActivity_def)
  have "checked (m_dirsList st' ! i) \<and> active (m_dirsList st' ! i) = a"
    if "SetDirActivity e i a st = Inr st'" for st'
  proof -
    from that s have "UpdateAvailableModels e ?f = Inr st'" by simp
    then obtain units solvers tr where
      "add_models_from_dirs e (m_dirsList ?f)
         (VectorDelete (m_availableUnits ?f) (IsToDelete (m_dirsList ?f)))
         (VectorDelete (m_availableSolvers ?f) (IsToDelete (m_dirsList ?f)))
         (effects ?f) = Inr (m_dirsList st', units, solvers, tr)"
      by (rule UpdateAvailableModels_result)
    then have "m_dirsList st' = map mark_checked (m_dirsList ?f)"
      by (rule add_models_dirs)
    with assms len have "m_dirsList st' ! i = mark_checked (m_dirsList ?f ! i)"
      by simp
    with c a show ?thesis
      by (auto simp: mark_checked_fields)
  qed
  with c a s show ?thesis by blast
qed

theorem SetDirActivity_checked_after_witness:
  "0 < length (m_dirsList manager_A_off) \<and>
   \<not> checked (m_dirsList (SetDirActivity_flags 0 True manager_A_off) ! 0) \<and>
   active (m_dirsList (SetDirActivity_flags 0 True manager_A_off) ! 0) \<and>
   SetDirActivity example_env 0 True manager_A_off =
     UpdateAvailableModels example_env (SetDirActivity_flags 0 True manager_A_off)"
proof -
  have h: "0 < length (m_dirsList manager_A_off)"
    by (simp add: manager_A_off_def)
  from SetDirActivity_checked_after[OF h, of True example_env] h show ?thesis
    by (simp add: manager_A_off_def)
qed

section \<open>Instantiation\<close>

lemma instantiate_unit_loop_unknown:
  "\<forall>u \<in> set us. uniqueID u \<noteq> k \<Longrightarrow> instantiate_unit_loop e k us st = Inr (None, st)"
  by (induction us) auto

lemma instantiate_solver_loop_unknown:
  "\<forall>s \<in> set ss. uniqueID s \<noteq> k \<Longrightarrow> instantiate_solver_loop e k ss st = Inr (None, st)"
  by (induction ss) auto

lemma Instantiate_unknown_key:
  "\<forall>u \<in> set (m_availableUnits st). uniqueID u \<noteq> k \<Longrightarrow> InstantiateUnit e k st = Inr (None, st)"
  "\<forall>s \<in> set (m_availableSolvers st). uniqueID s \<noteq> k \<Longrightarrow> InstantiateSolver e k st = Inr (None, st)"
  by (simp_all add: InstantiateUnit_def InstantiateSolver_def instantiate_unit_loop_unknown
        instantiate_solver_loop_unknown)

lemma instantiate_unit_loop_seeks_further:
  assumes "uniqueID u = k" "LoadDyssolLibrary e (fileLocation u) = Some h"
    and "LoadDyssolLibraryConstructor e h (DYSSOL_CREATE_MODEL_FUN_NAME e) = None \<or>
         LoadDyssolLibraryConstructor e h (DYSSOL_CREATE_MODEL_FUN_NAME e) = Some (Inr None)"
  shows "instantiate_unit_loop e k (u # us) st =
         instantiate_unit_loop e k us
           (st\<lparr>effects := effects st @ [LibraryLoaded (fileLocation u) h, LibraryClosed h]\<rparr>)"
  using assms by (auto simp: CloseDyssolLibrary_def)

lemma instantiate_solver_loop_seeks_further:
  assumes "uniqueID s = k" "LoadDyssolLibrary e (fileLocation s) = Some h"
    and "solverType s < length (CREATE_SOLVER_FUN_NAMES e)"
    and "LoadDyssolLibraryConstructor e h (CREATE_SOLVER_FUN_NAMES e ! solverType s) = None \<or>
         LoadDyssolLibraryConstructor e h (CREATE_SOLVER_FUN_NAMES e ! solverType s) = Some (Inr None)"
  shows "instantiate_solver_loop e k (s # ss) st =
         instantiate_solver_loop e k ss
           (st\<lparr>effects := effects st @ [LibraryLoaded (fileLocation s) h, LibraryClosed h]\<rparr>)"
  using assms by (auto simp: CloseDyssolLibrary_def)

text \<open>
  C1, at the failing input. The cache lists the key \<open>U1\<close> twice; the library of the first
  descriptor does not load, the library of the second loads and constructs an instance.
  \<open>InstantiateUnit\<close> returns null at the first descriptor and never tries the second,
  although on the second alone it succeeds.
\<close>

theorem InstantiateUnit_load_failure_ends_search:
  "InstantiateUnit example_env ''U1'' manager_dup = Inr (None, manager_dup) \<and>
   InstantiateUnit example_env ''U1''
       (manager_dup\<lparr>m_availableUnits := [unit_descr ''U1'' ''/E/u1.so'' ''kk'' 1]\<rparr>) =
     Inr (Some 19,
          manager_dup\<lparr>m_availableUnits := [unit_descr ''U1'' ''/E/u1.so'' ''kk'' 1],
                      m_loadedUnits := [19 \<mapsto> 9],
                      effects := [LibraryLoaded ''/E/u1.so'' 9, InstanceCreated 19,
                                  MappingInserted 19 9]\<rparr>)"
  by (simp add: InstantiateUnit_def manager_dup_def example_defs)

section \<open>Exceptions and version tags while probing\<close>

text \<open>
  C3, at the failing input. A factory that throws an exception other than a
  \<open>std::logic_error\<close> ends the probe, the scan of the directory, the reconciliation and
  \<open>AddDir\<close> with that exception.
\<close>

theorem probe_exception_leaves_scan:
  "TryGetUnitDescriptor example_env ''/C/bad.so'' 4 [] =
     Inl (Uncaught (OtherException ''runtime_error'')) \<and>
   TryGetSolverDescriptor example_env ''/C/bads.so'' 7 [] =
     Inl (Uncaught (OtherException ''runtime_error'')) \<and>
   UpdateAvailableModels example_env
       (empty_manager\<lparr>m_dirsList := [\<lparr>path = ''/C'', key = ''k'', active = True, checked = False\<rparr>]\<rparr>) =
     Inl (Uncaught (OtherException ''runtime_error'')) \<and>
   AddDir example_env ''/C'' True empty_manager =
     Inl (Uncaught (OtherException ''runtime_error''))"
  by (simp add: AddDir_def AllDirsKeys_def empty_manager_def example_defs scan_defs upt_rec)

lemma TryGetUnitDescriptor_logic_error:
  "LoadDyssolLibraryConstructor e lib (DYSSOL_CREATE_MODEL_FUN_NAME e) = Some (Inl (LogicError msg)) \<Longrightarrow>
   TryGetUnitDescriptor e f lib tr = Inr (empty_unit_descriptor, tr)"
  by (simp add: TryGetUnitDescriptor_def)

lemma unit_descriptor_of_accessor_throws:
  "unit_GetUniqueID u = Inl x \<or> unit_GetUnitName u = Inl x \<or> unit_GetAuthorName u = Inl x \<or>
   unit_GetUnitVersion u = Inl x \<or> unit_IsDynamicUnit u = Inl x \<Longrightarrow>
   unit_descriptor_of e f u = empty_unit_descriptor"
  by (auto simp: unit_descriptor_of_def split: sum.splits)

lemma solver_types_loop_rejected:
  "list_all (rejected_solver_factory e lib) is \<Longrightarrow>
   \<exists>ps tr'. solver_types_loop e f lib is d ps0 tr = Inr (d, ps, tr')"
proof (induction "is" arbitrary: ps0 tr)
  case Nil
  then show ?case by simp
next
  case (Cons i rest)
  then have r: "rejected_solver_factory e lib i" and rest: "list_all (rejected_solver_factory e lib) rest"
    by simp_all
  from r have len: "\<not> length (CREATE_SOLVER_FUN_NAMES e) \<le> i"
    by (simp add: rejected_solver_factory_def)
  show ?case
  proof (cases "LoadDyssolLibraryConstructor e lib (CREATE_SOLVER_FUN_NAMES e ! i)")
    case None
    with len Cons.IH[OF rest] show ?thesis by simp
  next
    case (Some fac)
    show ?thesis
    proof (cases fac)
      case (Inl ex)
      with r Some obtain msg where "ex = LogicError msg"
        by (cases ex) (auto simp: rejected_solver_factory_def)
      with len Some Inl Cons.IH[OF rest] show ?thesis by simp
    next
      case (Inr po)
      with r Some obtain p where p: "po = Some p"
        "solver_m_nCompilerVer (solver_at e p) \<noteq> COMPILER_VERSION e"
        by (cases po) (auto simp: rejected_solver_factory_def)
      with len Some Inr Cons.IH[OF rest, of "Some p" "tr @ [InstanceCreated p]"] show ?thesis
        by simp
    qed
  qed
qed

lemma TryGetSolverDescriptor_rejected:
  assumes "list_all (rejected_solver_factory e lib) [1 ..< Suc (SOLVERS_TYPES_NUMBER e)]"
  shows "\<exists>tr'. TryGetSolverDescriptor e f lib tr = Inr (empty_solver_descriptor, tr')"
proof -
  from solver_types_loop_rejected[OF assms] obtain ps tr' where
    "solver_types_loop e f lib [1 ..< Suc (SOLVERS_TYPES_NUMBER e)] empty_solver_descriptor None tr =
       Inr (empty_solver_descriptor, ps, tr')"
    by blast
  then show ?thesis
    unfolding TryGetSolverDescriptor_def by (cases ps) auto
qed

lemma TryGetUnitDescriptor_mismatch:
  assumes "LoadDyssolLibraryConstructor e lib (DYSSOL_CREATE_MODEL_FUN_NAME e) = Some (Inr (Some p))"
    and "unit_m_nCompilerVer (unit_at e p) \<noteq> COMPILER_VERSION e"
  shows "TryGetUnitDescriptor e f lib tr =
           Inr (empty_unit_descriptor, tr @ [InstanceCreated p, InstanceDeleted p])"
  using assms by (simp add: TryGetUnitDescriptor_def)

lemma solver_types_loop_origin:
  "solver_types_loop e f lib is d0 ps0 tr = Inr (d, ps, tr') \<Longrightarrow>
   d = d0 \<or> d = empty_solver_descriptor \<or> list_ex (solver_of_matching_instance e f lib d) is"
proof (induction "is" arbitrary: d0 ps0 tr)
  case Nil
  then show ?case by simp
next
  case (Cons i rest)
  from Cons.prems have len: "\<not> length (CREATE_SOLVER_FUN_NAMES e) \<le> i"
    by (auto split: if_splits)
  show ?case
  proof (cases "LoadDyssolLibraryConstructor e lib (CREATE_SOLVER_FUN_NAMES e ! i)")
    case None
    with len Cons.prems have "solver_types_loop e f lib rest d0 ps0 tr = Inr (d, ps, tr')"
      by simp
    from Cons.IH[OF this] show ?thesis by auto
  next
    case (Some fac)
    show ?thesis
    proof (cases fac)
      case (Inl ex)
      show ?thesis
      proof (cases ex)
        case (LogicError msg)
        with len Some Inl Cons.prems have "solver_types_loop e f lib rest d0 ps0 tr = Inr (d, ps, tr')"
          by simp
        from Cons.IH[OF this] show ?thesis by auto
      next
        case (OtherException msg)
        with len Some Inl Cons.prems show ?thesis by simp
      qed
    next
      case (Inr po)
      show ?thesis
      proof (cases po)
        case None
        with len Some Inr Cons.prems show ?thesis by simp
      next
        case (Some p)
        note p = this
        show ?thesis
        proof (cases "solver_m_nCompilerVer (solver_at e p) \<noteq> COMPILER_VERSION e")
          case True
          with len \<open>LoadDyssolLibraryConstructor e lib (CREATE_SOLVER_FUN_NAMES e ! i) = Some fac\<close>
            Inr p Cons.prems
          have "solver_types_loop e f lib rest d0 (Some p) (tr @ [InstanceCreated p]) = Inr (d, ps, tr')"
            by simp
          from Cons.IH[OF this] show ?thesis by auto
        next
          case False
          note ver = this
          show ?thesis
          proof (cases "solver_descriptor_of e f (solver_at e p)")
            case None
            with ver len \<open>LoadDyssolLibraryConstructor e lib (CREATE_SOLVER_FUN_NAMES e ! i) = Some fac\<close>
              Inr p Cons.prems
            have "solver_types_loop e f lib rest empty_solver_descriptor (Some p)
                    (tr @ [InstanceCreated p]) = Inr (d, ps, tr')"
              by simp
            from Cons.IH[OF this] show ?thesis by auto
          next
            case (Some d')
            with ver len \<open>LoadDyssolLibraryConstructor e lib (CREATE_SOLVER_FUN_NAMES e ! i) = Some fac\<close>
              Inr p Cons.prems
            have "d = d'" by simp
            with Some ver \<open>LoadDyssolLibraryConstructor e lib (CREATE_SOLVER_FUN_NAMES e ! i) = Some fac\<close>
              Inr p
            have "solver_of_matching_instance e f lib d i"
              by (simp add: solver_of_matching_instance_def)
            then show ?thesis by simp
          qed
        qed
      qed
    qed
  qed
qed

lemma TryGetSolverDescriptor_origin:
  assumes "TryGetSolverDescriptor e f lib tr = Inr (d, tr')"
  shows "d = empty_solver_descriptor \<or>
         list_ex (solver_of_matching_instance e f lib d) [1 ..< Suc (SOLVERS_TYPES_NUMBER e)]"
proof -
  from assms obtain ps tr'' where
    "solver_types_loop e f lib [1 ..< Suc (SOLVERS_TYPES_NUMBER e)] empty_solver_descriptor None tr =
       Inr (d, ps, tr'')"
    unfolding TryGetSolverDescriptor_def
    by (auto split: sum.splits prod.splits option.splits)
  from solver_types_loop_origin[OF this] show ?thesis by auto
qed

lemma TryGetUnitDescriptor_origin:
  assumes "TryGetUnitDescriptor e f lib tr = Inr (d, tr')"
  shows "d = empty_unit_descriptor \<or> unit_of_matching_instance e f lib d"
  using assms unfolding TryGetUnitDescriptor_def unit_of_matching_instance_def
  by (auto split: option.splits sum.splits exn.splits if_splits)

lemma TryGetUnitDescriptor_rejected:
  assumes "rejected_unit_factory e lib"
  shows "\<exists>tr'. TryGetUnitDescriptor e f lib tr = Inr (empty_unit_descriptor, tr')"
  using assms unfolding TryGetUnitDescriptor_def rejected_unit_factory_def
  by (auto split: option.splits sum.splits exn.splits if_splits)

lemma models_in_files_origin:
  assumes nb: "\<not> unit_bool e empty_unit_descriptor" "\<not> solver_bool e empty_solver_descriptor"
  shows "models_in_files e fs ru rs tr = Inr ((us, ss), tr') \<Longrightarrow>
         (\<forall>u \<in> set us. u \<in> set ru \<or> list_ex (listed_unit_origin e u) fs) \<and>
         (\<forall>s \<in> set ss. s \<in> set rs \<or> list_ex (listed_solver_origin e s) fs)"
proof (induction fs arbitrary: ru rs tr)
  case Nil
  then show ?case by auto
next
  case (Cons f fs)
  show ?case
  proof (cases "LoadDyssolLibrary e f")
    case None
    with Cons.prems have "models_in_files e fs ru rs tr = Inr ((us, ss), tr')" by simp
    from Cons.IH[OF this] show ?thesis by auto
  next
    case (Some lib)
    from Cons.prems Some obtain unit tr1 where
      u: "TryGetUnitDescriptor e f lib (tr @ [LibraryLoaded f lib]) = Inr (unit, tr1)"
      by (auto split: sum.splits)
    show ?thesis
    proof (cases "unit_bool e unit")
      case True
      with nb TryGetUnitDescriptor_origin[OF u] have "unit_of_matching_instance e f lib unit"
        by auto
      with Some have o: "listed_unit_origin e unit f"
        by (simp add: listed_unit_origin_def)
      from Cons.prems Some u True
      have "models_in_files e fs (ru @ [unit]) rs (tr1 @ [LibraryClosed lib]) = Inr ((us, ss), tr')"
        by simp
      from Cons.IH[OF this] o show ?thesis by auto
    next
      case False
      with Cons.prems Some u obtain solver tr2 where
        s: "TryGetSolverDescriptor e f lib tr1 = Inr (solver, tr2)"
        by (auto split: sum.splits)
      show ?thesis
      proof (cases "solver_bool e solver")
        case True
        with nb TryGetSolverDescriptor_origin[OF s]
        have "list_ex (solver_of_matching_instance e f lib solver) [1 ..< Suc (SOLVERS_TYPES_NUMBER e)]"
          by (auto simp del: upt_Suc)
        with Some have o: "listed_solver_origin e solver f"
          by (simp add: listed_solver_origin_def del: upt_Suc)
        from Cons.prems Some u False s True
        have "models_in_files e fs ru (rs @ [solver]) (tr2 @ [LibraryClosed lib]) = Inr ((us, ss), tr')"
          by simp
        from Cons.IH[OF this] o show ?thesis by auto
      next
        case nos: False
        from Cons.prems Some u False s nos
        have "models_in_files e fs ru rs (tr2 @ [LibraryClosed lib]) = Inr ((us, ss), tr')"
          by simp
        from Cons.IH[OF this] show ?thesis by auto
      qed
    qed
  qed
qed

text \<open>
  C7, as stated, at two candidates whose constructed instance has another compiler
  version than the host: the library \<open>/M/mixed.so\<close> with such a unit instance is listed as a
  solver, and the library \<open>/M/two.so\<close> whose first solver instance is such an instance
  yields the descriptor of its second one.
\<close>

theorem version_mismatch_listed_counterexample:
  "LoadDyssolLibraryConstructor mixed_env 10 (DYSSOL_CREATE_MODEL_FUN_NAME mixed_env) =
     Some (Inr (Some 30)) \<and>
   unit_m_nCompilerVer (unit_at mixed_env 30) \<noteq> COMPILER_VERSION mixed_env \<and>
   LoadDyssolLibraryConstructor mixed_env 11 (CREATE_SOLVER_FUN_NAMES mixed_env ! 1) =
     Some (Inr (Some 31)) \<and>
   solver_m_nCompilerVer (solver_at mixed_env 31) \<noteq> COMPILER_VERSION mixed_env \<and>
   TryGetSolverDescriptor mixed_env ''/M/two.so'' 11 [] =
     Inr (solver_descr ''S3'' ''/M/two.so'',
          [InstanceCreated 31, InstanceCreated 33, InstanceDeleted 33]) \<and>
   GetAllModelsInDir mixed_env ''/M'' [] =
     Inr (([], [solver_descr ''S2'' ''/M/mixed.so'', solver_descr ''S3'' ''/M/two.so'']),
          [LibraryLoaded ''/M/mixed.so'' 10, InstanceCreated 30, InstanceDeleted 30,
           InstanceCreated 32, InstanceDeleted 32, LibraryClosed 10,
           LibraryLoaded ''/M/two.so'' 11, InstanceCreated 31, InstanceCreated 33,
           InstanceDeleted 33, LibraryClosed 11])"
  by (simp add: mixed_env_def solver_descr_def example_defs GetAllModelsInDir_def
      TryGetUnitDescriptor_def TryGetSolverDescriptor_def unit_descriptor_of_def
      solver_descriptor_of_def upt_rec)

text \<open>
  C7, amended. An instance whose compiler version differs from the host's never yields a
  descriptor, and the mismatch is not an error: the unit probe deletes the instance and
  returns the empty descriptor, the solver probe goes on with the next solver type. Every
  descriptor a probe returns is empty or filled from an instance with the host's version,
  and every descriptor the scan of a directory lists comes from such an instance of a
  library of the directory. The candidate library itself is rejected (no descriptor, not
  listed, the scan goes on with the next file) when every factory it exports is rejected;
  a further factory of the same library whose instance has the host's version still
  yields a descriptor.
\<close>

theorem version_mismatch_instance_no_descriptor:
  "(LoadDyssolLibraryConstructor e lib (DYSSOL_CREATE_MODEL_FUN_NAME e) = Some (Inr (Some p)) \<and>
    unit_m_nCompilerVer (unit_at e p) \<noteq> COMPILER_VERSION e \<longrightarrow>
      TryGetUnitDescriptor e f lib tr =
        Inr (empty_unit_descriptor, tr @ [InstanceCreated p, InstanceDeleted p])) \<and>
   (TryGetUnitDescriptor e f lib tr = Inr (ud, tr1) \<longrightarrow>
      ud = empty_unit_descriptor \<or> unit_of_matching_instance e f lib ud) \<and>
   (TryGetSolverDescriptor e f lib tr = Inr (sd, tr2) \<longrightarrow>
      sd = empty_solver_descriptor \<or>
      list_ex (solver_of_matching_instance e f lib sd) [1 ..< Suc (SOLVERS_TYPES_NUMBER e)]) \<and>
   (list_all (rejected_solver_factory e lib) [1 ..< Suc (SOLVERS_TYPES_NUMBER e)] \<longrightarrow>
      (\<exists>tr'. TryGetSolverDescriptor e f lib tr = Inr (empty_solver_descriptor, tr'))) \<and>
   (\<not> unit_bool e empty_unit_descriptor \<and> \<not> solver_bool e empty_solver_descriptor \<and>
    GetAllModelsInDir e dir tr = Inr ((us, ss), tr3) \<longrightarrow>
      list_all (\<lambda>u. list_ex (listed_unit_origin e u) (FilesList e dir)) us \<and>
      list_all (\<lambda>s. list_ex (listed_solver_origin e s) (FilesList e dir)) ss) \<and>
   (\<not> unit_bool e empty_unit_descriptor \<and> \<not> solver_bool e empty_solver_descriptor \<and>
    LoadDyssolLibrary e f = Some lib \<and> rejected_unit_factory e lib \<and>
    list_all (rejected_solver_factory e lib) [1 ..< Suc (SOLVERS_TYPES_NUMBER e)] \<longrightarrow>
      (\<exists>tr'. models_in_files e (f # fs) resUnits resSolvers tr =
              models_in_files e fs resUnits resSolvers tr'))"
proof (intro conjI impI)
  assume "LoadDyssolLibraryConstructor e lib (DYSSOL_CREATE_MODEL_FUN_NAME e) = Some (Inr (Some p)) \<and>
    unit_m_nCompilerVer (unit_at e p) \<noteq> COMPILER_VERSION e"
  then show "TryGetUnitDescriptor e f lib tr =
        Inr (empty_unit_descriptor, tr @ [InstanceCreated p, InstanceDeleted p])"
    by (simp add: TryGetUnitDescriptor_mismatch)
next
  assume "TryGetUnitDescriptor e f lib tr = Inr (ud, tr1)"
  then show "ud = empty_unit_descriptor \<or> unit_of_matching_instance e f lib ud"
    by (rule TryGetUnitDescriptor_origin)
next
  assume "TryGetSolverDescriptor e f lib tr = Inr (sd, tr2)"
  then show "sd = empty_solver_descriptor \<or>
      list_ex (solver_of_matching_instance e f lib sd) [1 ..< Suc (SOLVERS_TYPES_NUMBER e)]"
    by (rule TryGetSolverDescriptor_origin)
next
  assume "list_all (rejected_solver_factory e lib) [1 ..< Suc (SOLVERS_TYPES_NUMBER e)]"
  then show "\<exists>tr'. TryGetSolverDescriptor e f lib tr = Inr (empty_solver_descriptor, tr')"
    by (rule TryGetSolverDescriptor_rejected)
next
  assume a: "\<not> unit_bool e empty_unit_descriptor \<and> \<not> solver_bool e empty_solver_descriptor \<and>
    GetAllModelsInDir e dir tr = Inr ((us, ss), tr3)"
  then have m: "models_in_files e (FilesList e dir) [] [] tr = Inr ((us, ss), tr3)"
    by (simp add: GetAllModelsInDir_def)
  from a have nb: "\<not> unit_bool e empty_unit_descriptor" "\<not> solver_bool e empty_solver_descriptor"
    by simp_all
  from models_in_files_origin[OF nb m]
  show "list_all (\<lambda>u. list_ex (listed_unit_origin e u) (FilesList e dir)) us"
    and "list_all (\<lambda>s. list_ex (listed_solver_origin e s) (FilesList e dir)) ss"
    by (simp_all add: list_all_iff)
next
  assume a: "\<not> unit_bool e empty_unit_descriptor \<and> \<not> solver_bool e empty_solver_descriptor \<and>
    LoadDyssolLibrary e f = Some lib \<and> rejected_unit_factory e lib \<and>
    list_all (rejected_solver_factory e lib) [1 ..< Suc (SOLVERS_TYPES_NUMBER e)]"
  then obtain tr1' where u: "TryGetUnitDescriptor e f lib (tr @ [LibraryLoaded f lib]) =
      Inr (empty_unit_descriptor, tr1')"
    using TryGetUnitDescriptor_rejected by blast
  from a obtain tr2' where s: "TryGetSolverDescriptor e f lib tr1' = Inr (empty_solver_descriptor, tr2')"
    using TryGetSolverDescriptor_rejected by blast
  from a u s have "models_in_files e (f # fs) resUnits resSolvers tr =
      models_in_files e fs resUnits resSolvers (tr2' @ [LibraryClosed lib])"
    by simp
  then show "\<exists>tr'. models_in_files e (f # fs) resUnits resSolvers tr =
              models_in_files e fs resUnits resSolvers tr'"
    by blast
qed

theorem version_mismatch_instance_no_descriptor_witness:
  "LoadDyssolLibraryConstructor example_env 5 (DYSSOL_CREATE_MODEL_FUN_NAME example_env) =
     Some (Inr (Some 15)) \<and>
   unit_m_nCompilerVer (unit_at example_env 15) \<noteq> COMPILER_VERSION example_env \<and>
   TryGetUnitDescriptor example_env ''/D/old.so'' 5 [] =
     Inr (empty_unit_descriptor, [InstanceCreated 15, InstanceDeleted 15]) \<and>
   LoadDyssolLibrary example_env ''/D/olds.so'' = Some 8 \<and>
   LoadDyssolLibraryConstructor example_env 8 (CREATE_SOLVER_FUN_NAMES example_env ! 1) =
     Some (Inr (Some 25)) \<and>
   solver_m_nCompilerVer (solver_at example_env 25) \<noteq> COMPILER_VERSION example_env \<and>
   rejected_unit_factory example_env 8 \<and>
   list_all (rejected_solver_factory example_env 8) [1 ..< Suc (SOLVERS_TYPES_NUMBER example_env)] \<and>
   \<not> unit_bool example_env empty_unit_descriptor \<and>
   \<not> solver_bool example_env empty_solver_descriptor \<and>
   (\<exists>tr'. TryGetSolverDescriptor example_env ''/D/olds.so'' 8 [] =
      Inr (empty_solver_descriptor, tr')) \<and>
   (\<exists>tr'. models_in_files example_env [''/D/olds.so''] [] [] [] = Inr (([], []), tr')) \<and>
   \<not> unit_bool mixed_env empty_unit_descriptor \<and>
   \<not> solver_bool mixed_env empty_solver_descriptor \<and>
   GetAllModelsInDir mixed_env ''/M'' [] =
     Inr (([], [solver_descr ''S2'' ''/M/mixed.so'', solver_descr ''S3'' ''/M/two.so'']),
          [LibraryLoaded ''/M/mixed.so'' 10, InstanceCreated 30, InstanceDeleted 30,
           InstanceCreated 32, InstanceDeleted 32, LibraryClosed 10,
           LibraryLoaded ''/M/two.so'' 11, InstanceCreated 31, InstanceCreated 33,
           InstanceDeleted 33, LibraryClosed 11]) \<and>
   list_all (\<lambda>s. list_ex (listed_solver_origin mixed_env s) (FilesList mixed_env ''/M''))
     [solver_descr ''S2'' ''/M/mixed.so'', solver_descr ''S3'' ''/M/two.so'']"
proof -
  have u: "LoadDyssolLibraryConstructor example_env 5 (DYSSOL_CREATE_MODEL_FUN_NAME example_env) =
     Some (Inr (Some 15))"
    "unit_m_nCompilerVer (unit_at example_env 15) \<noteq> COMPILER_VERSION example_env"
    by (simp_all add: example_defs)
  have s: "LoadDyssolLibrary example_env ''/D/olds.so'' = Some 8"
    "LoadDyssolLibraryConstructor example_env 8 (CREATE_SOLVER_FUN_NAMES example_env ! 1) =
       Some (Inr (Some 25))"
    "solver_m_nCompilerVer (solver_at example_env 25) \<noteq> COMPILER_VERSION example_env"
    "rejected_unit_factory example_env 8"
    "list_all (rejected_solver_factory example_env 8) [1 ..< Suc (SOLVERS_TYPES_NUMBER example_env)]"
    "\<not> unit_bool example_env empty_unit_descriptor"
    "\<not> solver_bool example_env empty_solver_descriptor"
    by (simp_all add: example_defs rejected_solver_factory_def rejected_unit_factory_def upt_rec)
  have m: "\<not> unit_bool mixed_env empty_unit_descriptor"
    "\<not> solver_bool mixed_env empty_solver_descriptor"
    "GetAllModelsInDir mixed_env ''/M'' [] =
     Inr (([], [solver_descr ''S2'' ''/M/mixed.so'', solver_descr ''S3'' ''/M/two.so'']),
          [LibraryLoaded ''/M/mixed.so'' 10, InstanceCreated 30, InstanceDeleted 30,
           InstanceCreated 32, InstanceDeleted 32, LibraryClosed 10,
           LibraryLoaded ''/M/two.so'' 11, InstanceCreated 31, InstanceCreated 33,
           InstanceDeleted 33, LibraryClosed 11])"
    by (simp_all add: mixed_env_def solver_descr_def example_defs GetAllModelsInDir_def
      TryGetUnitDescriptor_def TryGetSolverDescriptor_def unit_descriptor_of_def
      solver_descriptor_of_def upt_rec)
  from version_mismatch_instance_no_descriptor
         [where e = example_env and lib = 5 and p = 15 and f = "''/D/old.so''" and tr = "[]"] u
  have c1: "TryGetUnitDescriptor example_env ''/D/old.so'' 5 [] =
     Inr (empty_unit_descriptor, [InstanceCreated 15, InstanceDeleted 15])"
    by simp
  from version_mismatch_instance_no_descriptor
         [where e = example_env and lib = 8 and f = "''/D/olds.so''" and tr = "[]"
            and fs = "[]" and resUnits = "[]" and resSolvers = "[]"] s
  have c2: "\<exists>tr'. TryGetSolverDescriptor example_env ''/D/olds.so'' 8 [] =
      Inr (empty_solver_descriptor, tr')"
    and c3: "\<exists>tr'. models_in_files example_env [''/D/olds.so''] [] [] [] = Inr (([], []), tr')"
    by simp_all
  from version_mismatch_instance_no_descriptor
         [where e = mixed_env and dir = "''/M''" and tr = "[]"
            and us = "[]"
            and ss = "[solver_descr ''S2'' ''/M/mixed.so'', solver_descr ''S3'' ''/M/two.so'']"] m
  have c4: "list_all (\<lambda>s. list_ex (listed_solver_origin mixed_env s) (FilesList mixed_env ''/M''))
     [solver_descr ''S2'' ''/M/mixed.so'', solver_descr ''S3'' ''/M/two.so'']"
    by blast
  from u s m c1 c2 c3 c4 show ?thesis
    by (intro conjI)
qed

section \<open>Reconciliation without a scan, switching off and erasing a directory\<close>

lemma stable_sort_contract: "std_sort_contract stable_sort"
proof -
  have "sorted_wrt (\<lambda>a b. \<not> descriptor_less b a) (sort_key position xs)" for xs :: "'a SModelDescriptor_scheme list"
  proof -
    have "sorted (map position (sort_key position xs))" by simp
    then have "sorted_wrt (\<lambda>a b. position a \<le> position b) (sort_key position xs)"
      by (simp only: sorted_map)
    then show ?thesis
      by (rule sorted_wrt_mono_rel[rotated]) (simp add: descriptor_less_def)
  qed
  then show ?thesis
    by (simp add: std_sort_contract_def stable_sort_def)
qed

lemma reversing_sort_contract: "std_sort_contract reversing_sort"
proof -
  have "sorted_wrt (\<lambda>a b. \<not> descriptor_less b a) (sort_key position xs)" for xs :: "'a SModelDescriptor_scheme list"
  proof -
    have "sorted (map position (sort_key position xs))" by simp
    then have "sorted_wrt (\<lambda>a b. position a \<le> position b) (sort_key position xs)"
      by (simp only: sorted_map)
    then show ?thesis
      by (rule sorted_wrt_mono_rel[rotated]) (simp add: descriptor_less_def)
  qed
  then show ?thesis
    by (simp add: std_sort_contract_def reversing_sort_def)
qed

lemma UpdateAvailableModels_no_scan:
  assumes "\<forall>d \<in> set (m_dirsList st). active d \<longrightarrow> checked d"
  shows "UpdateAvailableModels e st =
     Inr (st\<lparr>m_availableUnits := sort_units e (set_positions (m_dirsList st)
                 (VectorDelete (m_availableUnits st) (IsToDelete (m_dirsList st)))),
             m_availableSolvers := sort_solvers e (set_positions (m_dirsList st)
                 (VectorDelete (m_availableSolvers st) (IsToDelete (m_dirsList st))))\<rparr>)"
  unfolding UpdateAvailableModels_def
  by (simp add: add_models_nothing_to_scan[OF assms])

lemma set_positions_reindex:
  assumes d: "distinct (map key dirs)"
    and g: "\<forall>m \<in> set ms. g m < length dirs \<and> key (dirs ! g m) = dirKey m"
  shows "set_positions dirs ms = map (\<lambda>m. m\<lparr>position := g m\<rparr>) ms"
  unfolding set_positions_map
proof (rule map_cong[OF refl])
  fix m assume "m \<in> set ms"
  with g have "g m < length dirs" "key (dirs ! g m) = dirKey m" by auto
  then show "fold (position_step dirs) [0 ..< length dirs] m = m\<lparr>position := g m\<rparr>"
    by (rule position_of_owned[OF d])
qed

lemma set_positions_id:
  assumes d: "distinct (map key dirs)"
    and g: "\<forall>m \<in> set ms. position m < length dirs \<and> key (dirs ! position m) = dirKey m"
  shows "set_positions dirs ms = ms"
proof -
  have "set_positions dirs ms = map (\<lambda>m. m\<lparr>position := position m\<rparr>) ms"
    by (rule set_positions_reindex[OF d g])
  then show ?thesis by simp
qed

lemma positions_okD:
  "positions_ok dirs ms \<Longrightarrow> m \<in> set ms \<Longrightarrow>
   position m < length dirs \<and> active (dirs ! position m) \<and> key (dirs ! position m) = dirKey m"
  unfolding positions_ok_def by auto

text \<open>Switching a directory off.\<close>

lemma deactivated_keep:
  assumes d: "distinct (map key dirs)" and i: "i < length dirs"
    and p: "positions_ok dirs ms"
  shows "VectorDelete ms (IsToDelete (dirs[i := (dirs ! i)\<lparr>checked := c, active := False\<rparr>])) =
         filter (\<lambda>m. dirKey m \<noteq> key (dirs ! i)) ms"
  unfolding VectorDelete_def
proof (rule filter_cong[OF refl])
  fix m assume m: "m \<in> set ms"
  let ?dirs2 = "dirs[i := (dirs ! i)\<lparr>checked := c, active := False\<rparr>]"
  from positions_okD[OF p m] have pm: "position m < length dirs" "active (dirs ! position m)"
    "key (dirs ! position m) = dirKey m" by auto
  show "(\<not> IsToDelete ?dirs2 m) = (dirKey m \<noteq> key (dirs ! i))"
  proof
    assume "\<not> IsToDelete ?dirs2 m"
    then obtain dd where dd: "dd \<in> set ?dirs2" "active dd" "key dd = dirKey m"
      by (auto simp: IsToDelete_iff)
    then obtain j where j: "j < length dirs" "dd = ?dirs2 ! j"
      by (auto simp: in_set_conv_nth)
    with dd i have "j \<noteq> i" by auto
    with j have "dd = dirs ! j" by simp
    with dd j \<open>j \<noteq> i\<close> i show "dirKey m \<noteq> key (dirs ! i)"
      using distinct_keys_unique[OF d, of j i] by auto
  next
    assume "dirKey m \<noteq> key (dirs ! i)"
    with pm have "position m \<noteq> i" by auto
    with pm have eq: "?dirs2 ! position m = dirs ! position m" by simp
    from pm have mem: "?dirs2 ! position m \<in> set ?dirs2"
      by (intro nth_mem) simp
    from pm have "active (dirs ! position m) \<and> key (dirs ! position m) = dirKey m"
      by simp
    with mem show "\<not> IsToDelete ?dirs2 m"
      unfolding IsToDelete_iff eq by blast
  qed
qed

lemma deactivated_lists:
  assumes r: "reconciled st" and i: "i < length (m_dirsList st)"
    and su: "std_sort_contract (sort_units e)" and ss: "std_sort_contract (sort_solvers e)"
  shows "\<exists>st'. SetDirActivity e i False st = Inr st' \<and>
           mset (m_availableUnits st') =
             mset (filter (\<lambda>m. dirKey m \<noteq> key (m_dirsList st ! i)) (m_availableUnits st)) \<and>
           mset (m_availableSolvers st') =
             mset (filter (\<lambda>m. dirKey m \<noteq> key (m_dirsList st ! i)) (m_availableSolvers st))"
proof -
  let ?dirs = "m_dirsList st"
  let ?dirs2 = "?dirs[i := (?dirs ! i)\<lparr>checked := True, active := False\<rparr>]"
  let ?st2 = "SetDirActivity_flags i False st"
  from r have d: "distinct (map key ?dirs)" and c: "\<forall>d \<in> set ?dirs. active d \<longrightarrow> checked d"
    and pu: "positions_ok ?dirs (m_availableUnits st)"
    and ps: "positions_ok ?dirs (m_availableSolvers st)"
    by (simp_all add: reconciled_def)
  have st2: "m_dirsList ?st2 = ?dirs2" "m_availableUnits ?st2 = m_availableUnits st"
    "m_availableSolvers ?st2 = m_availableSolvers st"
    by (simp_all add: SetDirActivity_flags_def)
  have keys2: "map key ?dirs2 = map key ?dirs"
    using i by (simp add: map_update list_update_same_conv)
  have d2: "distinct (map key ?dirs2)"
    using d by (simp only: keys2)
  have c2: "\<forall>dd \<in> set ?dirs2. active dd \<longrightarrow> checked dd"
  proof
    fix dd assume "dd \<in> set ?dirs2"
    then obtain j where j: "j < length ?dirs" "dd = ?dirs2 ! j"
      by (auto simp: in_set_conv_nth)
    show "active dd \<longrightarrow> checked dd"
    proof (cases "j = i")
      case True
      with j i show ?thesis by simp
    next
      case False
      with j have "dd = ?dirs ! j" by simp
      with j c show ?thesis by (metis nth_mem)
    qed
  qed
  have key_nth: "key (?dirs2 ! j) = key (?dirs ! j)" if "j < length ?dirs" for j
    using that i by (cases "j = i") simp_all
  have idu: "set_positions ?dirs2 (filter (\<lambda>m. dirKey m \<noteq> key (?dirs ! i)) (m_availableUnits st)) =
             filter (\<lambda>m. dirKey m \<noteq> key (?dirs ! i)) (m_availableUnits st)"
  proof (rule set_positions_id[OF d2], rule ballI)
    fix m assume "m \<in> set (filter (\<lambda>m. dirKey m \<noteq> key (?dirs ! i)) (m_availableUnits st))"
    then have "m \<in> set (m_availableUnits st)" by simp
    from positions_okD[OF pu this] key_nth
    show "position m < length ?dirs2 \<and> key (?dirs2 ! position m) = dirKey m"
      by simp
  qed
  have ids: "set_positions ?dirs2 (filter (\<lambda>m. dirKey m \<noteq> key (?dirs ! i)) (m_availableSolvers st)) =
             filter (\<lambda>m. dirKey m \<noteq> key (?dirs ! i)) (m_availableSolvers st)"
  proof (rule set_positions_id[OF d2], rule ballI)
    fix m assume "m \<in> set (filter (\<lambda>m. dirKey m \<noteq> key (?dirs ! i)) (m_availableSolvers st))"
    then have "m \<in> set (m_availableSolvers st)" by simp
    from positions_okD[OF ps this] key_nth
    show "position m < length ?dirs2 \<and> key (?dirs2 ! position m) = dirKey m"
      by simp
  qed
  have "SetDirActivity e i False st = UpdateAvailableModels e ?st2"
    using i by (simp add: SetDirActivity_def)
  also have "\<dots> = Inr (?st2\<lparr>m_availableUnits := sort_units e (set_positions (m_dirsList ?st2)
                 (VectorDelete (m_availableUnits ?st2) (IsToDelete (m_dirsList ?st2)))),
             m_availableSolvers := sort_solvers e (set_positions (m_dirsList ?st2)
                 (VectorDelete (m_availableSolvers ?st2) (IsToDelete (m_dirsList ?st2))))\<rparr>)"
    using c2 by (intro UpdateAvailableModels_no_scan) (simp only: st2)
  also have "\<dots> = Inr (?st2\<lparr>m_availableUnits := sort_units e
                 (filter (\<lambda>m. dirKey m \<noteq> key (?dirs ! i)) (m_availableUnits st)),
             m_availableSolvers := sort_solvers e
                 (filter (\<lambda>m. dirKey m \<noteq> key (?dirs ! i)) (m_availableSolvers st))\<rparr>)"
    by (simp only: st2 deactivated_keep[OF d i pu] deactivated_keep[OF d i ps] idu ids)
  finally have "SetDirActivity e i False st = Inr (?st2\<lparr>m_availableUnits := sort_units e
                 (filter (\<lambda>m. dirKey m \<noteq> key (?dirs ! i)) (m_availableUnits st)),
             m_availableSolvers := sort_solvers e
                 (filter (\<lambda>m. dirKey m \<noteq> key (?dirs ! i)) (m_availableSolvers st))\<rparr>)" .
  moreover from su have "mset (sort_units e xs) = mset xs" for xs
    by (simp add: std_sort_contract_def)
  moreover from ss have "mset (sort_solvers e xs) = mset xs" for xs
    by (simp add: std_sort_contract_def)
  ultimately show ?thesis by simp
qed

text \<open>Erasing a directory from the list.\<close>

lemma erase_nth:
  assumes "i < length xs" "j < length xs - 1"
  shows "(take i xs @ drop (Suc i) xs) ! j = (if j < i then xs ! j else xs ! Suc j)"
proof (cases "j < i")
  case True
  with assms show ?thesis by (simp add: nth_append)
next
  case False
  with assms show ?thesis by (simp add: nth_append min_def)
qed

lemma erase_length: "i < length xs \<Longrightarrow> length (take i xs @ drop (Suc i) xs) = length xs - 1"
  by simp

lemma erase_distinct:
  assumes "distinct (map key dirs)"
  shows "distinct (map key (take i dirs @ drop (Suc i) dirs))"
proof -
  let ?ks = "map key dirs"
  have "distinct (take i ?ks @ drop i ?ks)" using assms by simp
  then have a: "set (take i ?ks) \<inter> set (drop i ?ks) = {}"
    by (simp only: distinct_append)
  have "set (drop (Suc i) ?ks) \<subseteq> set (drop i ?ks)"
    by (rule set_drop_subset_set_drop) simp
  with a have b: "set (take i ?ks) \<inter> set (drop (Suc i) ?ks) = {}"
    by blast
  from assms have "distinct (take i ?ks)" "distinct (drop (Suc i) ?ks)"
    by simp_all
  with b have "distinct (take i ?ks @ drop (Suc i) ?ks)"
    by (simp only: distinct_append)
  then show ?thesis by (simp add: take_map drop_map)
qed

lemma erased_index:
  assumes i: "i < length dirs" and pm: "pm < length dirs" "pm \<noteq> i"
  shows "(if pm < i then pm else pm - 1) < length (take i dirs @ drop (Suc i) dirs) \<and>
         (take i dirs @ drop (Suc i) dirs) ! (if pm < i then pm else pm - 1) = dirs ! pm"
proof (cases "pm < i")
  case True
  with i pm show ?thesis by (simp add: nth_append)
next
  case False
  with pm have "i < pm" by simp
  with i pm have "pm - 1 < length dirs - 1" "\<not> pm - 1 < i" "Suc (pm - 1) = pm" by auto
  with i False erase_nth[OF i, of "pm - 1"] show ?thesis
    by (simp del: nth_append)
qed

lemma erased_keep:
  assumes d: "distinct (map key dirs)" and i: "i < length dirs"
    and p: "positions_ok dirs ms"
  shows "VectorDelete ms (IsToDelete (take i dirs @ drop (Suc i) dirs)) =
         filter (\<lambda>m. dirKey m \<noteq> key (dirs ! i)) ms"
  unfolding VectorDelete_def
proof (rule filter_cong[OF refl])
  fix m assume m: "m \<in> set ms"
  let ?dirs2 = "take i dirs @ drop (Suc i) dirs"
  from positions_okD[OF p m] have pm: "position m < length dirs" "active (dirs ! position m)"
    "key (dirs ! position m) = dirKey m" by auto
  show "(\<not> IsToDelete ?dirs2 m) = (dirKey m \<noteq> key (dirs ! i))"
  proof
    assume "\<not> IsToDelete ?dirs2 m"
    then obtain dd where dd: "dd \<in> set ?dirs2" "active dd" "key dd = dirKey m"
      by (auto simp: IsToDelete_iff)
    then obtain j where j: "j < length ?dirs2" "dd = ?dirs2 ! j"
      by (metis in_set_conv_nth)
    from j(1) i have j1: "j < length dirs - 1" by simp
    define j' where "j' = (if j < i then j else Suc j)"
    from erase_nth[OF i j1] j have ddj: "dd = dirs ! j'"
      by (simp add: j'_def)
    from j1 have j'': "j' < length dirs" "j' \<noteq> i"
      by (auto simp: j'_def)
    with dd ddj i show "dirKey m \<noteq> key (dirs ! i)"
      using distinct_keys_unique[OF d, of j' i] by auto
  next
    assume "dirKey m \<noteq> key (dirs ! i)"
    with pm have ne: "position m \<noteq> i" by auto
    let ?g = "if position m < i then position m else position m - 1"
    from erased_index[OF i pm(1) ne] have g: "?g < length ?dirs2" "?dirs2 ! ?g = dirs ! position m"
      by blast+
    from g(1) have mem: "?dirs2 ! ?g \<in> set ?dirs2"
      by (rule nth_mem)
    from pm have "active (dirs ! position m) \<and> key (dirs ! position m) = dirKey m"
      by simp
    with mem show "\<not> IsToDelete ?dirs2 m"
      unfolding IsToDelete_iff g(2) by blast
  qed
qed

lemma erased_positions:
  assumes d: "distinct (map key dirs)" and i: "i < length dirs"
    and p: "positions_ok dirs ms"
  shows "set_positions (take i dirs @ drop (Suc i) dirs) (filter (\<lambda>m. dirKey m \<noteq> key (dirs ! i)) ms) =
         map (position_after_erase i) (filter (\<lambda>m. dirKey m \<noteq> key (dirs ! i)) ms)"
proof -
  let ?dirs2 = "take i dirs @ drop (Suc i) dirs"
  let ?g = "\<lambda>m. if position m < i then position m else position m - 1"
  have "set_positions ?dirs2 (filter (\<lambda>m. dirKey m \<noteq> key (dirs ! i)) ms) =
        map (\<lambda>m. m\<lparr>position := ?g m\<rparr>) (filter (\<lambda>m. dirKey m \<noteq> key (dirs ! i)) ms)"
  proof (rule set_positions_reindex[OF erase_distinct[OF d]], rule ballI)
    fix m assume "m \<in> set (filter (\<lambda>m. dirKey m \<noteq> key (dirs ! i)) ms)"
    then have m: "m \<in> set ms" "dirKey m \<noteq> key (dirs ! i)" by simp_all
    from positions_okD[OF p m(1)] have pm: "position m < length dirs"
      "key (dirs ! position m) = dirKey m" by auto
    with m have ne: "position m \<noteq> i" by auto
    from erased_index[OF i pm(1) ne] pm(2)
    show "?g m < length ?dirs2 \<and> key (?dirs2 ! ?g m) = dirKey m"
      by simp
  qed
  then show ?thesis
    unfolding position_after_erase_def .
qed

lemma removed_lists:
  assumes r: "reconciled st" and i: "i < length (m_dirsList st)"
    and su: "std_sort_contract (sort_units e)" and ss: "std_sort_contract (sort_solvers e)"
  shows "\<exists>st'. RemoveDir e i st = Inr (True, st') \<and>
           mset (m_availableUnits st') =
             mset (map (position_after_erase i)
                    (filter (\<lambda>m. dirKey m \<noteq> key (m_dirsList st ! i)) (m_availableUnits st))) \<and>
           mset (m_availableSolvers st') =
             mset (map (position_after_erase i)
                    (filter (\<lambda>m. dirKey m \<noteq> key (m_dirsList st ! i)) (m_availableSolvers st)))"
proof -
  let ?dirs = "m_dirsList st"
  let ?dirs2 = "take i ?dirs @ drop (Suc i) ?dirs"
  let ?st2 = "st\<lparr>m_dirsList := ?dirs2\<rparr>"
  from r have d: "distinct (map key ?dirs)" and c: "\<forall>d \<in> set ?dirs. active d \<longrightarrow> checked d"
    and pu: "positions_ok ?dirs (m_availableUnits st)"
    and ps: "positions_ok ?dirs (m_availableSolvers st)"
    by (simp_all add: reconciled_def)
  have st2: "m_dirsList ?st2 = ?dirs2" "m_availableUnits ?st2 = m_availableUnits st"
    "m_availableSolvers ?st2 = m_availableSolvers st"
    by simp_all
  have "set ?dirs2 \<subseteq> set ?dirs"
    using set_take_subset[of i ?dirs] set_drop_subset[of "Suc i" ?dirs] by auto
  with c have c2: "\<forall>dd \<in> set ?dirs2. active dd \<longrightarrow> checked dd"
    by blast
  have "UpdateAvailableModels e ?st2 =
          Inr (?st2\<lparr>m_availableUnits := sort_units e (set_positions (m_dirsList ?st2)
                 (VectorDelete (m_availableUnits ?st2) (IsToDelete (m_dirsList ?st2)))),
             m_availableSolvers := sort_solvers e (set_positions (m_dirsList ?st2)
                 (VectorDelete (m_availableSolvers ?st2) (IsToDelete (m_dirsList ?st2))))\<rparr>)"
    using c2 by (intro UpdateAvailableModels_no_scan) (simp only: st2)
  also have "\<dots> = Inr (?st2\<lparr>m_availableUnits := sort_units e (map (position_after_erase i)
                 (filter (\<lambda>m. dirKey m \<noteq> key (?dirs ! i)) (m_availableUnits st))),
             m_availableSolvers := sort_solvers e (map (position_after_erase i)
                 (filter (\<lambda>m. dirKey m \<noteq> key (?dirs ! i)) (m_availableSolvers st)))\<rparr>)"
    by (simp only: st2 erased_keep[OF d i pu] erased_keep[OF d i ps]
          erased_positions[OF d i pu] erased_positions[OF d i ps])
  finally have u: "UpdateAvailableModels e ?st2 =
      Inr (?st2\<lparr>m_availableUnits := sort_units e (map (position_after_erase i)
                 (filter (\<lambda>m. dirKey m \<noteq> key (?dirs ! i)) (m_availableUnits st))),
             m_availableSolvers := sort_solvers e (map (position_after_erase i)
                 (filter (\<lambda>m. dirKey m \<noteq> key (?dirs ! i)) (m_availableSolvers st)))\<rparr>)" .
  from i have "RemoveDir e i st =
      (case UpdateAvailableModels e ?st2 of Inl err \<Rightarrow> Inl err | Inr st' \<Rightarrow> Inr (True, st'))"
    by (simp add: RemoveDir_def)
  then have "RemoveDir e i st = Inr (True, ?st2\<lparr>m_availableUnits := sort_units e (map (position_after_erase i)
                 (filter (\<lambda>m. dirKey m \<noteq> key (?dirs ! i)) (m_availableUnits st))),
             m_availableSolvers := sort_solvers e (map (position_after_erase i)
                 (filter (\<lambda>m. dirKey m \<noteq> key (?dirs ! i)) (m_availableSolvers st)))\<rparr>)"
    by (simp only: u sum.case)
  moreover from su have "mset (sort_units e xs) = mset xs" for xs
    by (simp add: std_sort_contract_def)
  moreover from ss have "mset (sort_solvers e xs) = mset xs" for xs
    by (simp add: std_sort_contract_def)
  ultimately show ?thesis by simp
qed

lemma reconciled_manager_AB: "reconciled manager_AB"
  by (simp add: reconciled_def positions_ok_def manager_AB_def unit_descr_def)

section \<open>Reachable managers are reconciled\<close>

text \<open>
  The empty manager is reconciled and every operation on the directory list that returns
  leaves a reconciled manager, as long as \<open>GenerateUniqueString\<close> gives a key that is not
  in use.
\<close>

lemma reconciled_empty_manager: "reconciled empty_manager"
  by (simp add: reconciled_def positions_ok_def empty_manager_def)

lemma reconciled_Clear: "reconciled (Clear st)"
  by (simp add: reconciled_def positions_ok_def Clear_def)

lemma swap_distinct_keys:
  assumes "distinct (map key dirs)" "i < length dirs" "j < length dirs"
  shows "distinct (map key (dirs[i := dirs ! j, j := dirs ! i]))"
proof -
  from assms have "mset (dirs[i := dirs ! j, j := dirs ! i]) = mset dirs"
    by (simp add: mset_swap)
  then have "mset (map key (dirs[i := dirs ! j, j := dirs ! i])) = mset (map key dirs)"
    by (metis mset_map)
  with assms(1) show ?thesis
    by (metis mset_eq_imp_distinct_iff)
qed

lemma directory_operations_keep_reconciled:
  assumes r: "reconciled st"
    and su: "std_sort_contract (sort_units e)"
    and ss: "std_sort_contract (sort_solvers e)"
  shows "GenerateUniqueString e [] (AllDirsKeys st) \<notin> set (AllDirsKeys st) \<Longrightarrow>
           AddDir e p a st = Inr (b, st') \<Longrightarrow> reconciled st'"
    and "RemoveDir e i st = Inr (b, st') \<Longrightarrow> reconciled st'"
    and "UpDir e i st = Inr (b, st') \<Longrightarrow> reconciled st'"
    and "DownDir e i st = Inr (b, st') \<Longrightarrow> reconciled st'"
    and "SetDirActivity e i a st = Inr st' \<Longrightarrow> reconciled st'"
proof -
  from r have d: "distinct (map key (m_dirsList st))"
    by (simp add: reconciled_def)
  note upd = UpdateAvailableModels_reconciled[OF _ su ss]
  {
    assume f: "GenerateUniqueString e [] (AllDirsKeys st) \<notin> set (AllDirsKeys st)"
      and a: "AddDir e p a st = Inr (b, st')"
    show "reconciled st'"
    proof (cases "find (\<lambda>entry. path entry = p) (m_dirsList st)")
      case (Some entry)
      with a r show ?thesis by (simp add: AddDir_def)
    next
      case None
      with a have "UpdateAvailableModels e
                 (st\<lparr>m_dirsList := m_dirsList st @
                    [\<lparr>path = p, key = GenerateUniqueString e [] (AllDirsKeys st),
                      active = a, checked = False\<rparr>]\<rparr>) = Inr st'"
        by (simp add: AddDir_def split: sum.splits)
      then show ?thesis
        using d f by (intro upd) (simp_all add: AllDirsKeys_def)
    qed
  }
  {
    assume a: "RemoveDir e i st = Inr (b, st')"
    show "reconciled st'"
    proof (cases "length (m_dirsList st) \<le> i")
      case True
      with a r show ?thesis by (simp add: RemoveDir_def)
    next
      case False
      with a have "UpdateAvailableModels e
                  (st\<lparr>m_dirsList := take i (m_dirsList st) @ drop (Suc i) (m_dirsList st)\<rparr>) = Inr st'"
        by (simp add: RemoveDir_def split: sum.splits)
      then show ?thesis
        using erase_distinct[OF d, of i] by (intro upd) simp_all
    qed
  }
  {
    assume a: "UpDir e i st = Inr (b, st')"
    show "reconciled st'"
    proof (cases "length (m_dirsList st) \<le> i \<or> i = 0")
      case True
      with a r show ?thesis by (auto simp: UpDir_def)
    next
      case False
      with a have "UpdateAvailableModels e
                  (st\<lparr>m_dirsList := (m_dirsList st)
                        [i := m_dirsList st ! (i - 1), i - 1 := m_dirsList st ! i]\<rparr>) = Inr st'"
        by (simp add: UpDir_def split: sum.splits)
      moreover from False have "i < length (m_dirsList st)" "i - 1 < length (m_dirsList st)"
        by auto
      note swap_distinct_keys[OF d this]
      ultimately show ?thesis
        by (intro upd) simp_all
    qed
  }
  {
    assume a: "DownDir e i st = Inr (b, st')"
    show "reconciled st'"
    proof (cases "length (m_dirsList st) \<le> i \<or> Suc i = length (m_dirsList st)")
      case True
      with a r show ?thesis by (auto simp: DownDir_def)
    next
      case False
      with a have "UpdateAvailableModels e
                  (st\<lparr>m_dirsList := (m_dirsList st)
                        [i := m_dirsList st ! (i + 1), i + 1 := m_dirsList st ! i]\<rparr>) = Inr st'"
        by (simp add: DownDir_def split: sum.splits)
      moreover from False have "i < length (m_dirsList st)" "i + 1 < length (m_dirsList st)"
        by auto
      note swap_distinct_keys[OF d this]
      ultimately show ?thesis
        by (intro upd) simp_all
    qed
  }
  {
    assume a: "SetDirActivity e i a st = Inr st'"
    show "reconciled st'"
    proof (cases "length (m_dirsList st) \<le> i")
      case True
      with a r show ?thesis by (simp add: SetDirActivity_def)
    next
      case False
      with a have "UpdateAvailableModels e (SetDirActivity_flags i a st) = Inr st'"
        by (simp add: SetDirActivity_def)
      moreover from False have "map key (m_dirsList (SetDirActivity_flags i a st)) = map key (m_dirsList st)"
        by (simp add: SetDirActivity_flags_def map_update list_update_same_conv)
      ultimately show ?thesis
        using d by (intro upd) simp_all
    qed
  }
qed

section \<open>Order of the caches\<close>

text \<open>
  C2, as stated, with a sort that meets the contract of \<open>std::sort\<close> but is not stable:
  the scan of \<open>/A\<close> discovers U1 before U2, and after the reconciliation the cache holds U2
  before U1.
\<close>

theorem discovery_order_counterexample:
  "std_sort_contract (sort_units unstable_env) \<and>
   GetModelsList unstable_env ''/A'' [] =
     Inr (([unit_descr ''U1'' ''/A/a1.so'' [] 0, unit_descr ''U2'' ''/A/a2.so'' [] 0], []),
          [LibraryLoaded ''/A/a1.so'' 1, InstanceCreated 11, InstanceDeleted 11,
           LibraryClosed 1, LibraryLoaded ''/A/a2.so'' 2, InstanceCreated 12,
           InstanceDeleted 12, LibraryClosed 2]) \<and>
   UpdateAvailableModels unstable_env manager_A_new =
     Inr (manager_A_new
       \<lparr>m_dirsList := [\<lparr>path = ''/A'', key = ''k'', active = True, checked = True\<rparr>],
        m_availableUnits := [unit_descr ''U2'' ''/A/a2.so'' ''k'' 0,
                             unit_descr ''U1'' ''/A/a1.so'' ''k'' 0],
        effects := [LibraryLoaded ''/A/a1.so'' 1, InstanceCreated 11, InstanceDeleted 11,
                    LibraryClosed 1, LibraryLoaded ''/A/a2.so'' 2, InstanceCreated 12,
                    InstanceDeleted 12, LibraryClosed 2]\<rparr>)"
proof -
  have "std_sort_contract (sort_units unstable_env)"
    using reversing_sort_contract by (simp add: unstable_env_def)
  then show ?thesis
    by (simp add: unstable_env_def manager_A_new_def empty_manager_def example_defs scan_defs)
qed

text \<open>
  C2, amended. With pairwise different directory keys and a sort that meets the contract of
  \<open>std::sort\<close>, after every run of \<open>UpdateAvailableModels\<close> that returns, each
  descriptor's position is the list index of its owning directory, which is active, and
  both lists are sorted by position; so for directories A before B in the list,
  \<open>GetAvailableUnits\<close> and \<open>GetAvailableSolvers\<close> return every descriptor of A before every
  descriptor of B. The order among the descriptors of one directory is not fixed.
\<close>

theorem UpdateAvailableModels_sorted_by_directory:
  assumes d: "distinct (map key (m_dirsList st))"
    and su: "std_sort_contract (sort_units e)"
    and ss: "std_sort_contract (sort_solvers e)"
    and u: "UpdateAvailableModels e st = Inr st'"
  shows "positions_ok (m_dirsList st') (GetAvailableUnits st') \<and>
         positions_ok (m_dirsList st') (GetAvailableSolvers st') \<and>
         sorted (map position (GetAvailableUnits st')) \<and>
         sorted (map position (GetAvailableSolvers st')) \<and>
         (\<forall>i j m n. i < j \<and> j < length (m_dirsList st') \<and>
            m < length (GetAvailableUnits st') \<and> n < length (GetAvailableUnits st') \<and>
            dirKey (GetAvailableUnits st' ! m) = key (m_dirsList st' ! i) \<and>
            dirKey (GetAvailableUnits st' ! n) = key (m_dirsList st' ! j) \<longrightarrow> m < n) \<and>
         (\<forall>i j m n. i < j \<and> j < length (m_dirsList st') \<and>
            m < length (GetAvailableSolvers st') \<and> n < length (GetAvailableSolvers st') \<and>
            dirKey (GetAvailableSolvers st' ! m) = key (m_dirsList st' ! i) \<and>
            dirKey (GetAvailableSolvers st' ! n) = key (m_dirsList st' ! j) \<longrightarrow> m < n)"
proof -
  from UpdateAvailableModels_reconciled[OF d su ss u]
  have d': "distinct (map key (m_dirsList st'))"
    and pu: "positions_ok (m_dirsList st') (m_availableUnits st')"
    and ps: "positions_ok (m_dirsList st') (m_availableSolvers st')"
    by (simp_all add: reconciled_def)
  from u obtain units solvers where
    "m_availableUnits st' = sort_units e (set_positions (m_dirsList st') units)"
    "m_availableSolvers st' = sort_solvers e (set_positions (m_dirsList st') solvers)"
    by (rule UpdateAvailableModels_result)
  with su ss have so: "sorted (map position (m_availableUnits st'))"
    "sorted (map position (m_availableSolvers st'))"
    by (simp_all add: std_sort_sorted)
  have "m < n" if "i < j" "j < length (m_dirsList st')"
    "m < length (m_availableUnits st')" "n < length (m_availableUnits st')"
    "dirKey (m_availableUnits st' ! m) = key (m_dirsList st' ! i)"
    "dirKey (m_availableUnits st' ! n) = key (m_dirsList st' ! j)" for i j m n
    using sorted_positions_order[OF so(1) pu d' that(1,2,3) that(5) that(4) that(6)] .
  moreover have "m < n" if "i < j" "j < length (m_dirsList st')"
    "m < length (m_availableSolvers st')" "n < length (m_availableSolvers st')"
    "dirKey (m_availableSolvers st' ! m) = key (m_dirsList st' ! i)"
    "dirKey (m_availableSolvers st' ! n) = key (m_dirsList st' ! j)" for i j m n
    using sorted_positions_order[OF so(2) ps d' that(1,2,3) that(5) that(4) that(6)] .
  ultimately show ?thesis
    using pu ps so unfolding GetAvailableUnits_def GetAvailableSolvers_def by blast
qed

lemma UpdateAvailableModels_manager_AB_new:
  "UpdateAvailableModels example_env manager_AB_new =
     Inr (manager_AB\<lparr>effects :=
       [LibraryLoaded ''/A/a1.so'' 1, InstanceCreated 11, InstanceDeleted 11, LibraryClosed 1,
        LibraryLoaded ''/A/a2.so'' 2, InstanceCreated 12, InstanceDeleted 12, LibraryClosed 2,
        LibraryLoaded ''/B/b1.so'' 3, InstanceCreated 13, InstanceDeleted 13, LibraryClosed 3]\<rparr>)"
  by (simp add: manager_AB_new_def manager_AB_def empty_manager_def example_defs scan_defs)

theorem UpdateAvailableModels_sorted_by_directory_witness:
  "distinct (map key (m_dirsList manager_AB_new)) \<and>
   std_sort_contract (sort_units example_env) \<and>
   std_sort_contract (sort_solvers example_env) \<and>
   UpdateAvailableModels example_env manager_AB_new =
     Inr (manager_AB\<lparr>effects :=
       [LibraryLoaded ''/A/a1.so'' 1, InstanceCreated 11, InstanceDeleted 11, LibraryClosed 1,
        LibraryLoaded ''/A/a2.so'' 2, InstanceCreated 12, InstanceDeleted 12, LibraryClosed 2,
        LibraryLoaded ''/B/b1.so'' 3, InstanceCreated 13, InstanceDeleted 13, LibraryClosed 3]\<rparr>) \<and>
   positions_ok (m_dirsList manager_AB) (GetAvailableUnits manager_AB) \<and>
   sorted (map position (GetAvailableUnits manager_AB))"
proof -
  have d: "distinct (map key (m_dirsList manager_AB_new))"
    by (simp add: manager_AB_new_def empty_manager_def)
  have su: "std_sort_contract (sort_units example_env)"
    and ss: "std_sort_contract (sort_solvers example_env)"
    using stable_sort_contract by (simp_all add: example_env_def)
  note u = UpdateAvailableModels_manager_AB_new
  from UpdateAvailableModels_sorted_by_directory[OF d su ss u] d su ss u
  show ?thesis
    by (simp add: GetAvailableUnits_def)
qed

section \<open>Content of the caches\<close>

text \<open>
  C5, as stated, when the first of two directories is erased: the descriptor of the other
  directory does not stay as it was, its position goes from 1 to 0.
\<close>

theorem RemoveDir_position_counterexample:
  "reconciled manager_AB \<and>
   filter (\<lambda>m. dirKey m \<noteq> key (m_dirsList manager_AB ! 0)) (m_availableUnits manager_AB) =
     [unit_descr ''U3'' ''/B/b1.so'' ''kk'' 1] \<and>
   RemoveDir example_env 0 manager_AB =
     Inr (True, manager_AB
       \<lparr>m_dirsList := [\<lparr>path = ''/B'', key = ''kk'', active = True, checked = True\<rparr>],
        m_availableUnits := [unit_descr ''U3'' ''/B/b1.so'' ''kk'' 0]\<rparr>) \<and>
   unit_descr ''U3'' ''/B/b1.so'' ''kk'' 0 \<noteq> unit_descr ''U3'' ''/B/b1.so'' ''kk'' 1"
  using reconciled_manager_AB
  by (simp add: RemoveDir_def manager_AB_def example_defs scan_defs)

text \<open>
  C5, amended. After every run of \<open>UpdateAvailableModels\<close> that returns, every cached
  descriptor's \<open>dirKey\<close> is the key of an active directory. In a reconciled manager,
  switching directory \<open>i\<close> off returns and removes exactly the descriptors with its key,
  leaving the others as they were; erasing directory \<open>i\<close> returns and removes exactly the
  descriptors with its key, leaving the others as they were except for \<open>position\<close>, which
  follows the directory's new index. The caches are compared as multisets, the sort being
  free to rearrange descriptors of equal position.
\<close>

theorem caches_follow_active_directories:
  assumes su: "std_sort_contract (sort_units e)"
    and ss: "std_sort_contract (sort_solvers e)"
  shows "(\<forall>st'. UpdateAvailableModels e st = Inr st' \<longrightarrow>
            (\<forall>m \<in> set (m_availableUnits st'). \<exists>d \<in> set (m_dirsList st'). active d \<and> key d = dirKey m) \<and>
            (\<forall>m \<in> set (m_availableSolvers st'). \<exists>d \<in> set (m_dirsList st'). active d \<and> key d = dirKey m)) \<and>
         (reconciled st \<and> i < length (m_dirsList st) \<longrightarrow>
            (\<exists>st'. SetDirActivity e i False st = Inr st' \<and>
               mset (m_availableUnits st') =
                 mset (filter (\<lambda>m. dirKey m \<noteq> key (m_dirsList st ! i)) (m_availableUnits st)) \<and>
               mset (m_availableSolvers st') =
                 mset (filter (\<lambda>m. dirKey m \<noteq> key (m_dirsList st ! i)) (m_availableSolvers st))) \<and>
            (\<exists>st'. RemoveDir e i st = Inr (True, st') \<and>
               mset (m_availableUnits st') =
                 mset (map (position_after_erase i)
                        (filter (\<lambda>m. dirKey m \<noteq> key (m_dirsList st ! i)) (m_availableUnits st))) \<and>
               mset (m_availableSolvers st') =
                 mset (map (position_after_erase i)
                        (filter (\<lambda>m. dirKey m \<noteq> key (m_dirsList st ! i)) (m_availableSolvers st)))))"
proof (intro conjI allI impI)
  fix st' assume u: "UpdateAvailableModels e st = Inr st'"
  then obtain units solvers tr where
    r: "add_models_from_dirs e (m_dirsList st)
       (VectorDelete (m_availableUnits st) (IsToDelete (m_dirsList st)))
       (VectorDelete (m_availableSolvers st) (IsToDelete (m_dirsList st)))
       (effects st) = Inr (m_dirsList st', units, solvers, tr)"
    and us: "m_availableUnits st' = sort_units e (set_positions (m_dirsList st') units)"
    and sv: "m_availableSolvers st' = sort_solvers e (set_positions (m_dirsList st') solvers)"
    by (rule UpdateAvailableModels_result)
  from set_positions_owned[OF add_models_units_owned[OF r]]
  show "\<forall>m \<in> set (m_availableUnits st'). \<exists>d \<in> set (m_dirsList st'). active d \<and> key d = dirKey m"
    unfolding us std_sort_set[OF su] .
  from set_positions_owned[OF add_models_solvers_owned[OF r]]
  show "\<forall>m \<in> set (m_availableSolvers st'). \<exists>d \<in> set (m_dirsList st'). active d \<and> key d = dirKey m"
    unfolding sv std_sort_set[OF ss] .
next
  assume a: "reconciled st \<and> i < length (m_dirsList st)"
  then show "\<exists>st'. SetDirActivity e i False st = Inr st' \<and>
               mset (m_availableUnits st') =
                 mset (filter (\<lambda>m. dirKey m \<noteq> key (m_dirsList st ! i)) (m_availableUnits st)) \<and>
               mset (m_availableSolvers st') =
                 mset (filter (\<lambda>m. dirKey m \<noteq> key (m_dirsList st ! i)) (m_availableSolvers st))"
    using deactivated_lists[OF _ _ su ss] by blast
next
  assume a: "reconciled st \<and> i < length (m_dirsList st)"
  then show "\<exists>st'. RemoveDir e i st = Inr (True, st') \<and>
               mset (m_availableUnits st') =
                 mset (map (position_after_erase i)
                        (filter (\<lambda>m. dirKey m \<noteq> key (m_dirsList st ! i)) (m_availableUnits st))) \<and>
               mset (m_availableSolvers st') =
                 mset (map (position_after_erase i)
                        (filter (\<lambda>m. dirKey m \<noteq> key (m_dirsList st ! i)) (m_availableSolvers st)))"
    using removed_lists[OF _ _ su ss] by blast
qed

theorem caches_follow_active_directories_witness:
  "std_sort_contract (sort_units example_env) \<and>
   std_sort_contract (sort_solvers example_env) \<and>
   reconciled manager_AB \<and> 0 < length (m_dirsList manager_AB) \<and>
   UpdateAvailableModels example_env manager_AB = Inr manager_AB \<and>
   list_all (\<lambda>m. list_ex (\<lambda>d. active d \<and> key d = dirKey m) (m_dirsList manager_AB))
     (m_availableUnits manager_AB) \<and>
   (\<exists>st'. SetDirActivity example_env 0 False manager_AB = Inr st' \<and>
      mset (m_availableUnits st') = {#unit_descr ''U3'' ''/B/b1.so'' ''kk'' 1#}) \<and>
   (\<exists>st'. RemoveDir example_env 0 manager_AB = Inr (True, st') \<and>
      mset (m_availableUnits st') = {#unit_descr ''U3'' ''/B/b1.so'' ''kk'' 0#})"
proof -
  have su: "std_sort_contract (sort_units example_env)"
    and ss: "std_sort_contract (sort_solvers example_env)"
    using stable_sort_contract by (simp_all add: example_env_def)
  have r: "reconciled manager_AB \<and> 0 < length (m_dirsList manager_AB)"
    using reconciled_manager_AB by (simp add: manager_AB_def)
  have u: "UpdateAvailableModels example_env manager_AB = Inr manager_AB"
    by (simp add: manager_AB_def example_defs scan_defs)
  have f: "filter (\<lambda>m. dirKey m \<noteq> key (m_dirsList manager_AB ! 0)) (m_availableUnits manager_AB) =
     [unit_descr ''U3'' ''/B/b1.so'' ''kk'' 1]"
    by (simp add: manager_AB_def unit_descr_def)
  have g: "position_after_erase 0 (unit_descr ''U3'' ''/B/b1.so'' ''kk'' 1) =
     unit_descr ''U3'' ''/B/b1.so'' ''kk'' 0"
    by (simp add: position_after_erase_def unit_descr_def)
  from caches_follow_active_directories[OF su ss, of manager_AB 0] su ss r u f g
  show ?thesis
    unfolding list_all_iff list_ex_iff by simp blast
qed

section \<open>Reading a time-dependent parameter\<close>

lemma interpolate_between_first:
  "increasing_times ps \<Longrightarrow> ps \<noteq> [] \<Longrightarrow> interpolate_between ps (fst (hd ps)) = snd (hd ps)"
  by (induction ps "fst (hd ps)" rule: interpolate_between.induct)
     (auto simp: increasing_times_def)

lemma interpolate_between_last:
  "increasing_times ps \<Longrightarrow> ps \<noteq> [] \<Longrightarrow> interpolate_between ps (fst (last ps)) = snd (last ps)"
proof (induction ps "fst (last ps)" rule: interpolate_between.induct)
  case 1
  then show ?case by simp
next
  case (2 t0 v0)
  then show ?case by simp
next
  case (3 t0 v0 t1 v1 rest)
  from 3(2) have lt: "t0 < t1" and inc: "increasing_times ((t1, v1) # rest)"
    and above: "\<forall>x \<in> set rest. t1 < fst x"
    by (simp_all add: increasing_times_def)
  show ?case
  proof (cases "rest = []")
    case True
    with lt show ?thesis by simp
  next
    case False
    then have "last rest \<in> set rest" by simp
    with above have "\<not> fst (last rest) \<le> t1" by auto
    with 3(1) inc False show ?thesis by simp
  qed
qed

lemma interpolate_between_segment:
  "increasing_times ps \<Longrightarrow> Suc k < length ps \<Longrightarrow>
   fst (ps ! k) \<le> t \<Longrightarrow> t \<le> fst (ps ! Suc k) \<Longrightarrow>
   interpolate_between ps t =
     snd (ps ! k) + (t - fst (ps ! k)) * (snd (ps ! Suc k) - snd (ps ! k)) /
       (fst (ps ! Suc k) - fst (ps ! k))"
proof (induction ps t arbitrary: k rule: interpolate_between.induct)
  case (1 t)
  then show ?case by simp
next
  case (2 t0 v0 t)
  then show ?case by simp
next
  case (3 t0 v0 t1 v1 rest t)
  from 3(2) have lt: "t0 < t1" and inc: "increasing_times ((t1, v1) # rest)"
    and above: "\<forall>x \<in> set rest. t1 < fst x"
    by (simp_all add: increasing_times_def)
  show ?case
  proof (cases k)
    case 0
    with 3 show ?thesis by simp
  next
    case (Suc k')
    with 3(3) have k': "Suc k' < length ((t1, v1) # rest)" by simp
    then have mem: "rest ! k' \<in> set rest" by simp
    with above have gt: "t1 < fst (rest ! k')" by blast
    from 3(5) Suc have "t \<le> fst (rest ! k')" by simp
    show ?thesis
    proof (cases k')
      case 0
      from 3(4) Suc 0 have t1t: "t1 \<le> t" by simp
      show ?thesis
      proof (cases "t = t1")
        case True
        with Suc 0 lt show ?thesis by simp
      next
        case False
        with t1t have n: "\<not> t \<le> t1" by simp
        from 3(1)[OF n inc k'] 3(4,5) Suc n show ?thesis by simp
      qed
    next
      case (Suc k'')
      with k' have "rest ! k'' \<in> set rest" by simp
      with above have "t1 < fst (rest ! k'')" by blast
      with 3(4) \<open>k = Suc k'\<close> Suc have n: "\<not> t \<le> t1" by simp
      from 3(1)[OF n inc k'] 3(4,5) \<open>k = Suc k'\<close> n show ?thesis by simp
    qed
  qed
qed

lemma CDependentValues_GetValue_cases:
  "CDependentValues_GetValue [] t = 0 \<and>
   (increasing_times points \<and> points \<noteq> [] \<and> t \<le> fst (hd points) \<longrightarrow>
      CDependentValues_GetValue points t = snd (hd points)) \<and>
   (increasing_times points \<and> points \<noteq> [] \<and> fst (last points) \<le> t \<longrightarrow>
      CDependentValues_GetValue points t = snd (last points)) \<and>
   (increasing_times points \<and> Suc k < length points \<and>
    fst (points ! k) \<le> t \<and> t \<le> fst (points ! Suc k) \<longrightarrow>
      CDependentValues_GetValue points t =
        snd (points ! k) + (t - fst (points ! k)) * (snd (points ! Suc k) - snd (points ! k)) /
          (fst (points ! Suc k) - fst (points ! k))) \<and>
   CDependentValues_GetValue [(0, 1), (10, 5)] (- 5) = 1 \<and>
   CDependentValues_GetValue [(0, 1), (10, 5)] 5 = 3 \<and>
   CDependentValues_GetValue [(0, 1), (10, 5)] 15 = 5"
proof (intro conjI impI)
  show "CDependentValues_GetValue [] t = 0"
    by (simp add: CDependentValues_GetValue_def)
next
  assume a: "increasing_times points \<and> points \<noteq> [] \<and> t \<le> fst (hd points)"
  then have first_last: "fst (hd points) \<le> fst (last points)"
    unfolding increasing_times_def
    by (cases points) (auto simp: less_imp_le)
  show "CDependentValues_GetValue points t = snd (hd points)"
  proof (cases "t = fst (hd points)")
    case True
    with a first_last interpolate_between_first[of points] show ?thesis
      by (simp add: CDependentValues_GetValue_def)
  next
    case False
    with a show ?thesis by (simp add: CDependentValues_GetValue_def)
  qed
next
  assume a: "increasing_times points \<and> points \<noteq> [] \<and> fst (last points) \<le> t"
  then have first_last: "fst (hd points) \<le> fst (last points)"
    unfolding increasing_times_def
    by (cases points) (auto simp: less_imp_le)
  show "CDependentValues_GetValue points t = snd (last points)"
  proof (cases "t = fst (last points)")
    case True
    with a first_last interpolate_between_last[of points] show ?thesis
      by (simp add: CDependentValues_GetValue_def)
  next
    case False
    with a first_last show ?thesis by (simp add: CDependentValues_GetValue_def)
  qed
next
  assume a: "increasing_times points \<and> Suc k < length points \<and>
    fst (points ! k) \<le> t \<and> t \<le> fst (points ! Suc k)"
  then have ne: "points \<noteq> []" by auto
  from a have sw: "sorted_wrt (<) (map fst points)"
    by (simp add: increasing_times_def)
  have "fst (hd points) \<le> fst (points ! k)"
  proof (cases k)
    case 0
    with ne show ?thesis by (simp add: hd_conv_nth)
  next
    case (Suc j)
    with a sorted_wrt_nth_less[OF sw, of 0 k] ne show ?thesis
      by (simp add: hd_conv_nth)
  qed
  with a have lo: "\<not> t < fst (hd points)" by simp
  have "fst (points ! Suc k) \<le> fst (last points)"
  proof (cases "Suc k = length points - 1")
    case True
    with ne show ?thesis by (simp add: last_conv_nth)
  next
    case False
    with a have "Suc k < length points - 1" by linarith
    with sorted_wrt_nth_less[OF sw, of "Suc k" "length points - 1"] ne show ?thesis
      by (simp add: last_conv_nth)
  qed
  with a have hi: "\<not> fst (last points) < t" by simp
  from a have "interpolate_between points t =
      snd (points ! k) + (t - fst (points ! k)) * (snd (points ! Suc k) - snd (points ! k)) /
          (fst (points ! Suc k) - fst (points ! k))"
    by (intro interpolate_between_segment) simp_all
  with ne lo hi show "CDependentValues_GetValue points t =
        snd (points ! k) + (t - fst (points ! k)) * (snd (points ! Suc k) - snd (points ! k)) /
          (fst (points ! Suc k) - fst (points ! k))"
    by (simp add: CDependentValues_GetValue_def)
qed (simp_all add: CDependentValues_GetValue_def)

text \<open>
  C8. For every time-dependent parameter whose time points increase and every time \<open>t\<close>:
  without points \<open>GetValue\<close> is 0; at or before the first time point it is the first value;
  at or after the last it is the last value; between two neighbouring points it is the
  linear interpolation between them. With the points (0,1) and (10,5), the values at -5, 5
  and 15 are 1, 3 and 5. The function is total, so there is no time at which it fails.
\<close>

theorem GetValue_clamps_and_interpolates:
  "(td_m_values p = [] \<longrightarrow> CTDUnitParameter_GetValue p t = 0) \<and>
   (increasing_times (td_m_values p) \<and> td_m_values p \<noteq> [] \<and> t \<le> fst (hd (td_m_values p)) \<longrightarrow>
      CTDUnitParameter_GetValue p t = snd (hd (td_m_values p))) \<and>
   (increasing_times (td_m_values p) \<and> td_m_values p \<noteq> [] \<and> fst (last (td_m_values p)) \<le> t \<longrightarrow>
      CTDUnitParameter_GetValue p t = snd (last (td_m_values p))) \<and>
   (increasing_times (td_m_values p) \<and> Suc k < length (td_m_values p) \<and>
    fst (td_m_values p ! k) \<le> t \<and> t \<le> fst (td_m_values p ! Suc k) \<longrightarrow>
      CTDUnitParameter_GetValue p t =
        snd (td_m_values p ! k) +
        (t - fst (td_m_values p ! k)) * (snd (td_m_values p ! Suc k) - snd (td_m_values p ! k)) /
          (fst (td_m_values p ! Suc k) - fst (td_m_values p ! k))) \<and>
   CTDUnitParameter_GetValue (p\<lparr>td_m_values := [(0, 1), (10, 5)]\<rparr>) (- 5) = 1 \<and>
   CTDUnitParameter_GetValue (p\<lparr>td_m_values := [(0, 1), (10, 5)]\<rparr>) 5 = 3 \<and>
   CTDUnitParameter_GetValue (p\<lparr>td_m_values := [(0, 1), (10, 5)]\<rparr>) 15 = 5"
  using CDependentValues_GetValue_cases[of t "td_m_values p" k]
  by (simp add: CTDUnitParameter_GetValue_def)

theorem GetValue_clamps_and_interpolates_witness:
  "increasing_times (td_m_values (example_td_parameter [(0, 1), (10, 5), (20, 9)])) \<and>
   CTDUnitParameter_GetValue (example_td_parameter []) 3 = 0 \<and>
   CTDUnitParameter_GetValue (example_td_parameter [(0, 1), (10, 5), (20, 9)]) (- 1) = 1 \<and>
   CTDUnitParameter_GetValue (example_td_parameter [(0, 1), (10, 5), (20, 9)]) 0 = 1 \<and>
   CTDUnitParameter_GetValue (example_td_parameter [(0, 1), (10, 5), (20, 9)]) 20 = 9 \<and>
   CTDUnitParameter_GetValue (example_td_parameter [(0, 1), (10, 5), (20, 9)]) 25 = 9 \<and>
   CTDUnitParameter_GetValue (example_td_parameter [(0, 1), (10, 5), (20, 9)]) 15 = 7"
proof -
  let ?p = "example_td_parameter [(0, 1), (10, 5), (20, 9)]"
  have h: "increasing_times (td_m_values ?p)"
    by (simp add: increasing_times_def example_td_parameter_def)
  from GetValue_clamps_and_interpolates[of "example_td_parameter []" 3 0]
       GetValue_clamps_and_interpolates[of ?p "- 1" 0]
       GetValue_clamps_and_interpolates[of ?p 0 0]
       GetValue_clamps_and_interpolates[of ?p 20 1]
       GetValue_clamps_and_interpolates[of ?p 25 1]
       GetValue_clamps_and_interpolates[of ?p 15 1] h
  show ?thesis by (simp add: example_td_parameter_def)
qed

section \<open>Saving and loading the parameters\<close>

lemma write_fields_Cons:
  "write_fields loc ((n, d) # es) f = write_fields loc es (f(loc @ [Name n] \<mapsto> d))"
  by (simp add: write_fields_def)

lemma write_fields_Nil: "write_fields loc [] f = f"
  by (simp add: write_fields_def)

lemma write_fields_other:
  "(\<forall>n. k \<noteq> loc @ [Name n]) \<Longrightarrow> write_fields loc es f k = f k"
proof (induction es arbitrary: f)
  case Nil
  then show ?case by (simp add: write_fields_Nil)
next
  case (Cons e es)
  obtain n d where e: "e = (n, d)" by (cases e)
  from Cons show ?case
    unfolding e write_fields_Cons by simp
qed

lemma write_fields_lookup:
  "write_fields loc es f (loc @ [Name n]) =
     (case map_of (rev es) n of Some d \<Rightarrow> Some d | None \<Rightarrow> f (loc @ [Name n]))"
proof (induction es arbitrary: f)
  case Nil
  then show ?case by (simp add: write_fields_Nil)
next
  case (Cons e es)
  obtain m d where e: "e = (m, d)" by (cases e)
  show ?case
    unfolding e write_fields_Cons Cons.IH
    by (auto simp: map_add_def split: option.splits)
qed

lemma save_parameters_other:
  "(\<forall>j n. i \<le> j \<longrightarrow> k \<noteq> prefix @ [Index j, Name n]) \<Longrightarrow>
   save_parameters prefix i ps f k = f k"
proof (induction ps arbitrary: i f)
  case Nil
  then show ?case by simp
next
  case (Cons p ps)
  from Cons.prems have "\<forall>j n. Suc i \<le> j \<longrightarrow> k \<noteq> prefix @ [Index j, Name n]"
    by auto
  then have "save_parameters prefix (Suc i) ps (write_fields (prefix @ [Index i]) (parameter_fields p) f) k =
      write_fields (prefix @ [Index i]) (parameter_fields p) f k"
    by (rule Cons.IH)
  also from Cons.prems have "\<dots> = f k"
    by (intro write_fields_other) auto
  finally show ?case by simp
qed

lemma load_parameter_cong:
  assumes h: "\<And>n. f (loc @ [Name n]) = g (loc @ [Name n])"
  shows "load_parameter f loc = load_parameter g loc"
  unfolding load_parameter_def load_base_def read_nat_def read_real_def read_bool_def
    read_str_def read_reals_def read_nats_def read_strs_def h ..

lemmas read_defs = read_nat_def read_real_def read_bool_def read_str_def read_reals_def
  read_nats_def read_strs_def read_triples_def

lemma load_written_parameter:
  assumes "type_matches p"
  shows "load_parameter (write_fields loc (parameter_fields p) f) loc = Some p"
proof (cases p)
  case (ConstParameter q)
  with assms show ?thesis
    by (cases q) (simp add: Let_def load_parameter_def load_base_def read_defs write_fields_lookup
        base_fields_def CBaseUnitParameter.extend_def CConstUnitParameter.fields_def
        CBaseUnitParameter.defs CConstUnitParameter.defs)
next
  case (TDParameter q)
  with assms show ?thesis
    by (cases q) (simp add: Let_def load_parameter_def load_base_def read_defs write_fields_lookup
        base_fields_def zip_map_fst_snd
        CBaseUnitParameter.defs CTDUnitParameter.defs)
next
  case (StringParameter q)
  with assms show ?thesis
    by (cases q) (simp add: Let_def load_parameter_def load_base_def read_defs write_fields_lookup
        base_fields_def
        CBaseUnitParameter.defs CStringUnitParameter.defs)
next
  case (CheckboxParameter q)
  with assms show ?thesis
    by (cases q) (simp add: Let_def load_parameter_def load_base_def read_defs write_fields_lookup
        base_fields_def
        CBaseUnitParameter.defs CCheckboxUnitParameter.defs)
next
  case (SolverParameter q)
  with assms show ?thesis
    by (cases q) (simp add: Let_def load_parameter_def load_base_def read_defs write_fields_lookup
        base_fields_def
        CBaseUnitParameter.defs CSolverUnitParameter.defs)
next
  case (ComboParameter q)
  with assms show ?thesis
    by (cases q) (simp add: Let_def load_parameter_def load_base_def read_defs write_fields_lookup
        base_fields_def zip_map_fst_snd
        CBaseUnitParameter.defs CComboUnitParameter.defs)
next
  case (GroupParameter q)
  with assms show ?thesis
    by (cases q) (simp add: Let_def load_parameter_def load_base_def read_defs write_fields_lookup
        base_fields_def zip_map_fst_snd
        CBaseUnitParameter.defs CComboUnitParameter.defs)
next
  case (CompoundParameter q)
  with assms show ?thesis
    by (cases q) (simp add: Let_def load_parameter_def load_base_def read_defs write_fields_lookup
        base_fields_def
        CBaseUnitParameter.defs CCompoundUnitParameter.defs)
qed

lemma load_saved_parameter:
  "j < length ps \<Longrightarrow> list_all type_matches ps \<Longrightarrow>
   load_parameter (save_parameters prefix i ps f) (prefix @ [Index (i + j)]) = Some (ps ! j)"
proof (induction ps arbitrary: i j f)
  case Nil
  then show ?case by simp
next
  case (Cons p ps)
  show ?case
  proof (cases j)
    case 0
    have "load_parameter (save_parameters prefix (Suc i) ps
              (write_fields (prefix @ [Index i]) (parameter_fields p) f)) (prefix @ [Index i]) =
          load_parameter (write_fields (prefix @ [Index i]) (parameter_fields p) f) (prefix @ [Index i])"
      by (rule load_parameter_cong, rule save_parameters_other) simp
    also from Cons.prems have "\<dots> = Some p"
      by (intro load_written_parameter) simp
    finally show ?thesis using 0 by simp
  next
    case (Suc j')
    with Cons.prems have "j' < length ps" "list_all type_matches ps" by simp_all
    then have "load_parameter (save_parameters prefix (Suc i) ps F) (prefix @ [Index (Suc i + j')]) =
        Some (ps ! j')" for F
      by (rule Cons.IH)
    with Suc show ?thesis by simp
  qed
qed

lemma map_filter_all_Some:
  "(\<And>i. i < length ps \<Longrightarrow> g (k + i) = Some (ps ! i)) \<Longrightarrow>
   List.map_filter g [k ..< k + length ps] = ps"
proof (induction ps arbitrary: k)
  case Nil
  then show ?case by simp
next
  case (Cons p ps)
  from Cons.prems[of 0] have g0: "g k = Some p" by simp
  have "List.map_filter g [Suc k ..< Suc k + length ps] = ps"
  proof (rule Cons.IH)
    fix i assume "i < length ps"
    with Cons.prems[of "Suc i"] show "g (Suc k + i) = Some (ps ! i)" by simp
  qed
  moreover have "[k ..< k + length (p # ps)] = k # [Suc k ..< Suc k + length ps]"
    by (subst upt_conv_Cons) simp_all
  ultimately show ?case
    using g0 by (simp del: upt_Suc)
qed

lemma SaveToFile_header:
  "SaveToFile R h5 prefix (prefix @ [Name n]) =
     (if n = ''Groups'' then Some (H5Triples (group_triples (m_groups R)))
      else if n = ''ParametersNumber'' then Some (H5Nat (length (m_parameters R)))
      else if n = ''SaveVersion'' then Some (H5Nat m_cnSaveVersion)
      else h5 (prefix @ [Name n]))"
proof -
  have "SaveToFile R h5 prefix (prefix @ [Name n]) =
      write_fields prefix
          [(''SaveVersion'', H5Nat m_cnSaveVersion),
           (''ParametersNumber'', H5Nat (length (m_parameters R))),
           (''Groups'', H5Triples (group_triples (m_groups R)))] h5 (prefix @ [Name n])"
    unfolding SaveToFile_def by (rule save_parameters_other) simp
  then show ?thesis
    by (simp add: write_fields_lookup)
qed

lemma loaded_parameters:
  assumes "list_all type_matches (m_parameters R)"
  shows "m_parameters (LoadFromFile (SaveToFile R h5 prefix) prefix) = m_parameters R"
proof -
  have n: "read_nat (SaveToFile R h5 prefix) prefix ''ParametersNumber'' 0 = length (m_parameters R)"
    by (simp add: read_nat_def SaveToFile_header)
  have "List.map_filter (\<lambda>i. load_parameter (SaveToFile R h5 prefix) (prefix @ [Index i]))
          [0 ..< 0 + length (m_parameters R)] = m_parameters R"
  proof (rule map_filter_all_Some)
    fix i assume "i < length (m_parameters R)"
    from load_saved_parameter[OF this assms, of prefix 0]
    show "load_parameter (SaveToFile R h5 prefix) (prefix @ [Index (0 + i)]) = Some (m_parameters R ! i)"
      by (simp add: SaveToFile_def)
  qed
  with n show ?thesis
    by (simp add: LoadFromFile_def)
qed

text \<open>Rebuilding the group map from its triples.\<close>

lemma update_absent: "k \<notin> fst ` set al \<Longrightarrow> AList.update k v al = al @ [(k, v)]"
  by (induction al) auto

lemma update_at_end: "k \<notin> fst ` set al \<Longrightarrow> AList.update k v (al @ [(k, w)]) = al @ [(k, v)]"
  by (induction al) auto

lemma map_of_absent: "k \<notin> fst ` set al \<Longrightarrow> map_of al k = None"
  by (simp add: map_of_eq_None_iff)

lemma map_of_at_end: "k \<notin> fst ` set al \<Longrightarrow> map_of (al @ [(k, w)]) k = Some w"
  using map_of_absent[of k al] by (simp add: map_add_def)

lemma blocks_of_with_entry:
  "p \<notin> fst ` set acc \<Longrightarrow> blocks_of (with_entry acc p bs) p = bs"
  by (simp add: blocks_of_def with_entry_def map_of_absent map_of_at_end del: map_of_append)

lemma AddToGroup_new_block:
  assumes p: "p \<notin> fst ` set acc" and b: "b \<notin> fst ` set bs"
  shows "AddToGroup p b x (with_entry acc p bs) = with_entry acc p (bs @ [(b, [x])])"
proof -
  have "groups_of (with_entry acc p bs) p b = []"
    using b by (simp add: groups_of_def blocks_of_with_entry[OF p] map_of_absent)
  then have "AddToGroup p b x (with_entry acc p bs) =
      AList.update p (bs @ [(b, [x])]) (with_entry acc p bs)"
    using b by (simp add: AddToGroup_def blocks_of_with_entry[OF p] update_absent)
  also have "\<dots> = acc @ [(p, bs @ [(b, [x])])]"
    using p by (simp add: with_entry_def update_absent update_at_end)
  finally show ?thesis by (simp add: with_entry_def)
qed

lemma AddToGroup_last_block:
  assumes p: "p \<notin> fst ` set acc" and b: "b \<notin> fst ` set bs"
  shows "AddToGroup p b x (with_entry acc p (bs @ [(b, gs)])) =
         with_entry acc p (bs @ [(b, gs @ [x])])"
proof -
  have "groups_of (with_entry acc p (bs @ [(b, gs)])) p b = gs"
    using b by (simp add: groups_of_def blocks_of_with_entry[OF p] map_of_at_end del: map_of_append)
  then have "AddToGroup p b x (with_entry acc p (bs @ [(b, gs)])) =
      AList.update p (bs @ [(b, gs @ [x])]) (with_entry acc p (bs @ [(b, gs)]))"
    using b by (simp add: AddToGroup_def blocks_of_with_entry[OF p] update_at_end)
  also have "\<dots> = acc @ [(p, bs @ [(b, gs @ [x])])]"
    using p by (simp add: with_entry_def update_at_end)
  finally show ?thesis by (simp add: with_entry_def)
qed

lemma register_groups_of_block:
  assumes p: "p \<notin> fst ` set acc" and b: "b \<notin> fst ` set bs"
  shows "fold register (map (\<lambda>x. (p, b, x)) (g0 # gs)) (with_entry acc p bs) =
         with_entry acc p (bs @ [(b, g0 # gs)])"
proof (induction gs rule: rev_induct)
  case Nil
  from AddToGroup_new_block[OF p b] show ?case by simp
next
  case (snoc x gs)
  have "fold register (map (\<lambda>x. (p, b, x)) (g0 # gs @ [x])) (with_entry acc p bs) =
        AddToGroup p b x (fold register (map (\<lambda>x. (p, b, x)) (g0 # gs)) (with_entry acc p bs))"
    by simp
  also have "\<dots> = AddToGroup p b x (with_entry acc p (bs @ [(b, g0 # gs)]))"
    by (simp only: snoc.IH)
  also have "\<dots> = with_entry acc p (bs @ [(b, (g0 # gs) @ [x])])"
    by (rule AddToGroup_last_block[OF p b])
  finally show ?case by simp
qed

lemma register_blocks:
  assumes p: "p \<notin> fst ` set acc"
  shows "distinct (map fst (bs0 @ bs)) \<Longrightarrow> list_all (\<lambda>(b, gs). gs \<noteq> []) bs \<Longrightarrow>
         fold register (concat (map (\<lambda>(b, gs). map (\<lambda>x. (p, b, x)) gs) bs)) (with_entry acc p bs0) =
         with_entry acc p (bs0 @ bs)"
proof (induction bs arbitrary: bs0)
  case Nil
  then show ?case by simp
next
  case (Cons e bs)
  obtain b gs where e: "e = (b, gs)" by (cases e)
  with Cons.prems obtain g0 gs' where gs: "gs = g0 # gs'"
    by (cases gs) auto
  from Cons.prems e have b: "b \<notin> fst ` set bs0" by auto
  from Cons.prems e have d: "distinct (map fst ((bs0 @ [(b, gs)]) @ bs))"
    and l: "list_all (\<lambda>(b, gs). gs \<noteq> []) bs" by auto
  have "fold register (concat (map (\<lambda>(b, gs). map (\<lambda>x. (p, b, x)) gs) (e # bs))) (with_entry acc p bs0) =
        fold register (concat (map (\<lambda>(b, gs). map (\<lambda>x. (p, b, x)) gs) bs))
          (fold register (map (\<lambda>x. (p, b, x)) (g0 # gs')) (with_entry acc p bs0))"
    by (simp add: e gs)
  also have "\<dots> = fold register (concat (map (\<lambda>(b, gs). map (\<lambda>x. (p, b, x)) gs) bs))
          (with_entry acc p (bs0 @ [(b, gs)]))"
    by (simp only: register_groups_of_block[OF p b] gs)
  also have "\<dots> = with_entry acc p ((bs0 @ [(b, gs)]) @ bs)"
    by (rule Cons.IH[OF d l])
  finally show ?case by (simp add: e)
qed

lemma register_group_triples:
  "distinct (map fst (acc @ groups)) \<Longrightarrow> list_all (\<lambda>(i, blocks). wf_blocks blocks) groups \<Longrightarrow>
   fold register (group_triples groups) acc = acc @ groups"
proof (induction groups arbitrary: acc)
  case Nil
  then show ?case by (simp add: group_triples_def)
next
  case (Cons e groups)
  obtain p bs where e: "e = (p, bs)" by (cases e)
  from Cons.prems e have p: "p \<notin> fst ` set acc" by auto
  from Cons.prems e have wb: "bs \<noteq> []" "distinct (map fst ([] @ bs))" "list_all (\<lambda>(b, gs). gs \<noteq> []) bs"
    by (simp_all add: wf_blocks_def)
  from Cons.prems e have d: "distinct (map fst ((acc @ [(p, bs)]) @ groups))"
    and l: "list_all (\<lambda>(i, blocks). wf_blocks blocks) groups" by auto
  have "fold register (group_triples (e # groups)) acc =
        fold register (group_triples groups)
          (fold register (concat (map (\<lambda>(b, gs). map (\<lambda>x. (p, b, x)) gs) bs)) (with_entry acc p []))"
    by (simp add: group_triples_def e with_entry_def)
  also have "\<dots> = fold register (group_triples groups) (with_entry acc p ([] @ bs))"
    by (simp only: register_blocks[OF p wb(2,3)])
  also have "\<dots> = fold register (group_triples groups) (acc @ [(p, bs)])"
    using wb(1) by (simp add: with_entry_def)
  also have "\<dots> = (acc @ [(p, bs)]) @ groups"
    by (rule Cons.IH[OF d l])
  finally show ?case by (simp add: e)
qed

lemma loaded_groups:
  assumes "wf_groups (m_groups R)"
  shows "m_groups (LoadFromFile (SaveToFile R h5 prefix) prefix) = m_groups R"
proof -
  have "read_triples (SaveToFile R h5 prefix) prefix ''Groups'' = group_triples (m_groups R)"
    by (simp add: read_triples_def SaveToFile_header)
  moreover from assms have "fold register (group_triples (m_groups R)) [] = [] @ m_groups R"
    by (intro register_group_triples) (simp_all add: wf_groups_def)
  ultimately show ?thesis
    by (simp add: LoadFromFile_def)
qed

text \<open>
  C9. For every manager whose parameters carry the type tag of their class and whose group
  map has pairwise different keys and no empty entry, and for every kind of parameter,
  loading what was saved gives the manager back: every getter (values, bounds, selected
  items, the group map and \<open>IsParameterActive\<close>) returns on the loaded manager what it
  returns on the saved one.
\<close>

theorem Load_Save_round_trip:
  assumes "wf_manager R"
  shows "LoadFromFile (SaveToFile R h5Saver prefix) prefix = R \<and>
         (\<forall>i. GetParameter (LoadFromFile (SaveToFile R h5Saver prefix) prefix) i = GetParameter R i) \<and>
         (\<forall>i. GetConstParameterValue (LoadFromFile (SaveToFile R h5Saver prefix) prefix) i =
               GetConstParameterValue R i) \<and>
         (\<forall>i t. GetTDParameterValue (LoadFromFile (SaveToFile R h5Saver prefix) prefix) i t =
                 GetTDParameterValue R i t) \<and>
         (\<forall>i. GetStringParameterValue (LoadFromFile (SaveToFile R h5Saver prefix) prefix) i =
               GetStringParameterValue R i) \<and>
         (\<forall>i. GetCheckboxParameterValue (LoadFromFile (SaveToFile R h5Saver prefix) prefix) i =
               GetCheckboxParameterValue R i) \<and>
         (\<forall>i. GetSolverParameterValue (LoadFromFile (SaveToFile R h5Saver prefix) prefix) i =
               GetSolverParameterValue R i) \<and>
         (\<forall>i. GetComboParameterValue (LoadFromFile (SaveToFile R h5Saver prefix) prefix) i =
               GetComboParameterValue R i) \<and>
         (\<forall>i. GetGroupParameterValue (LoadFromFile (SaveToFile R h5Saver prefix) prefix) i =
               GetGroupParameterValue R i) \<and>
         (\<forall>i. GetCompoundParameterValue (LoadFromFile (SaveToFile R h5Saver prefix) prefix) i =
               GetCompoundParameterValue R i) \<and>
         (\<forall>i b. groups_of (m_groups (LoadFromFile (SaveToFile R h5Saver prefix) prefix)) i b =
                 groups_of (m_groups R) i b) \<and>
         (\<forall>i. IsParameterActive (LoadFromFile (SaveToFile R h5Saver prefix) prefix) i =
               IsParameterActive R i)"
proof -
  from assms have "m_parameters (LoadFromFile (SaveToFile R h5Saver prefix) prefix) = m_parameters R"
    and "m_groups (LoadFromFile (SaveToFile R h5Saver prefix) prefix) = m_groups R"
    by (simp_all add: wf_manager_def loaded_parameters loaded_groups)
  then have "LoadFromFile (SaveToFile R h5Saver prefix) prefix = R"
    by (intro CUnitParametersManager.equality) simp_all
  then show ?thesis by simp
qed

theorem Load_Save_round_trip_witness:
  "wf_manager example_manager \<and>
   LoadFromFile (SaveToFile example_manager Map.empty [Name ''Unit'']) [Name ''Unit''] =
     example_manager \<and>
   GetConstParameterValue example_manager 0 = 2 \<and>
   GetGroupParameterValue example_manager 2 = 1 \<and>
   IsParameterActive example_manager 0 \<and> \<not> IsParameterActive example_manager 3 \<and>
   IsParameterActive example_manager 1"
proof -
  have w: "wf_manager example_manager"
    by (simp add: wf_manager_def wf_groups_def wf_blocks_def example_manager_def
        example_td_parameter_def)
  have g: "GetConstParameterValue example_manager 0 = 2"
    "GetGroupParameterValue example_manager 2 = 1"
    "IsParameterActive example_manager 0" "\<not> IsParameterActive example_manager 3"
    "IsParameterActive example_manager 1"
    by (simp_all add: GetConstParameterValue_def GetGroupParameterValue_def IsParameterActive_def
        GetGroupParameter_def GetParameter_def example_manager_def)
  from Load_Save_round_trip[OF w, of Map.empty "[Name ''Unit'']"] w g show ?thesis
    by simp
qed

lemma example_save_load_evaluated:
  "LoadFromFile (SaveToFile example_manager Map.empty [Name ''Unit'']) [Name ''Unit''] =
     example_manager"
  by (simp add: LoadFromFile_def SaveToFile_def example_manager_def example_td_parameter_def
      write_fields_def read_defs load_parameter_def load_base_def base_fields_def Let_def
      AddToGroup_def groups_of_def blocks_of_def group_triples_def upt_rec
      CBaseUnitParameter.defs CConstUnitParameter.defs CTDUnitParameter.defs
      CComboUnitParameter.defs CCheckboxUnitParameter.defs)

end
